theory Spec2Isabelle
  imports Complex_Main "HOL-Library.AList"
begin

section \<open>JavaScript values and objects\<close>

text \<open>
  The engine reads weather values, k values and weights out of plain JavaScript objects.
  A value is \<open>undefined\<close>, \<open>null\<close>, \<open>NaN\<close> or a finite number. Finite numbers are
  modelled as reals: arithmetic is exact, there is no rounding, no overflow and no
  infinity. An object is an association list in insertion order; the first binding of a
  key is its value, \<open>AList.update\<close> is the assignment \<open>obj[key] = v\<close>.
\<close>

datatype jsval = Undefined | Null | NaN | Num real

type_synonym 'a obj = "(string \<times> 'a) list"

text \<open>\<open>key in obj\<close>\<close>

definition has_key :: "string \<Rightarrow> 'a obj \<Rightarrow> bool" where
  "has_key k ob = (map_of ob k \<noteq> None)"

text \<open>\<open>obj[key]\<close> on an object of values: a missing key reads as \<open>undefined\<close>.\<close>

definition get :: "jsval obj \<Rightarrow> string \<Rightarrow> jsval" where
  "get ob k = (case map_of ob k of None \<Rightarrow> Undefined | Some v \<Rightarrow> v)"

text \<open>The global \<open>isNaN\<close>: it converts first, so \<open>isNaN(null)\<close> is false.\<close>

fun isNaN :: "jsval \<Rightarrow> bool" where
  "isNaN Undefined = True"
| "isNaN Null = False"
| "isNaN NaN = True"
| "isNaN (Num r) = False"

text \<open>Conversion to a number where the value is known to be one (\<open>Number(null)\<close> is 0).\<close>

fun num_val :: "jsval \<Rightarrow> real" where
  "num_val (Num r) = r"
| "num_val v = 0"

text \<open>\<open>v || d\<close> with a numeric default: \<open>undefined\<close>, \<open>null\<close>, \<open>NaN\<close> and 0 are falsy.\<close>

fun or_default :: "jsval \<Rightarrow> real \<Rightarrow> real" where
  "or_default (Num r) d = (if r = 0 then d else r)"
| "or_default v d = d"

text \<open>\<open>a + b\<close> on values (\<open>null\<close> counts as 0, \<open>undefined\<close> and \<open>NaN\<close> give \<open>NaN\<close>).\<close>

fun js_add :: "jsval \<Rightarrow> jsval \<Rightarrow> jsval" where
  "js_add (Num a) (Num b) = Num (a + b)"
| "js_add (Num a) Null = Num a"
| "js_add Null (Num b) = Num b"
| "js_add Null Null = Num 0"
| "js_add a b = NaN"

text \<open>\<open>a / d\<close> for a divisor that is a nonzero number.\<close>

fun js_div :: "jsval \<Rightarrow> real \<Rightarrow> jsval" where
  "js_div (Num a) d = Num (a / d)"
| "js_div Null d = Num 0"
| "js_div v d = NaN"

section \<open>Data model\<close>

text \<open>
  A daily record \<open>{date, variable: value, ...}\<close>. The date is kept as the parsed
  timestamp (milliseconds); the weather variables are the remaining fields.
\<close>

record day =
  date :: int
  vals :: "jsval obj"

record crop =
  variety :: "string option"
  region :: "string option"
  duration_days :: nat
  daily_weather :: "day list option"
  k_values :: "jsval obj option"

section \<open>Calibration: \<open>calculateRange\<close> and \<open>computeCropKValues\<close>\<close>

text \<open>The filter of \<open>calculateRange\<close>: \<open>v !== null && v !== undefined && !isNaN(v)\<close>.\<close>

definition range_valid :: "jsval \<Rightarrow> bool" where
  "range_valid v = (v \<noteq> Null \<and> v \<noteq> Undefined \<and> \<not> isNaN v)"

definition calculateRange :: "jsval list \<Rightarrow> real" where
  "calculateRange values =
     (if values = [] then 1
      else case map num_val (filter range_valid values) of
             [] \<Rightarrow> 1
           | x # xs \<Rightarrow>
               (let mn = fold min xs x; mx = fold max xs x
                in if mx - mn = 0 then 1 else mx - mn))"

record cal_entry =
  ce_crop :: string
  ce_variable :: string
  ce_range :: "real option"
  ce_importance :: real
  ce_variation_factor :: "real option"
  ce_k_value :: jsval
  ce_missing :: bool

text \<open>\<open>crop.daily_weather.some((day) => variable in day)\<close>\<close>

definition some_day_has :: "string \<Rightarrow> day list \<Rightarrow> bool" where
  "some_day_has variable days = list_ex (\<lambda>d. has_key variable (vals d)) days"

text \<open>First loop over \<open>baseImportance\<close>: the raw range of every variable found in the data.\<close>

fun raw_ranges :: "day list \<Rightarrow> real obj \<Rightarrow> real obj \<Rightarrow> real obj" where
  "raw_ranges days [] ranges = ranges"
| "raw_ranges days ((variable, imp) # rest) ranges =
     raw_ranges days rest
       (if some_day_has variable days
        then AList.update variable (calculateRange (map (\<lambda>d. get (vals d) variable) days)) ranges
        else ranges)"

text \<open>\<open>Math.max(...Object.values(ranges), 1.0)\<close>\<close>

definition maxRange :: "real obj \<Rightarrow> real" where
  "maxRange ranges = fold max (map snd ranges) 1"

text \<open>Second loop: every range divided by \<open>maxRange\<close>.\<close>

definition normalize_ranges :: "real obj \<Rightarrow> real obj" where
  "normalize_ranges ranges = map (\<lambda>(variable, r). (variable, r / maxRange ranges)) ranges"

definition variationFactor :: "real \<Rightarrow> real" where
  "variationFactor r = max (1 / 10) (1 - (1 / 2) * r)"

text \<open>
  Third loop: the k value and the log entry of each variable of \<open>baseImportance\<close>.
  The accumulator is the pair of \<open>kDict\<close> and the entries pushed so far.
\<close>

fun k_loop :: "string \<Rightarrow> day list \<Rightarrow> real obj \<Rightarrow> real obj \<Rightarrow>
    jsval obj \<times> cal_entry list \<Rightarrow> jsval obj \<times> cal_entry list" where
  "k_loop cropName days ranges [] acc = acc"
| "k_loop cropName days ranges ((variable, imp) # rest) (kDict, entries) =
     k_loop cropName days ranges rest
       (case (if some_day_has variable days then map_of ranges variable else None) of
          Some r \<Rightarrow>
            (let vf = variationFactor r; k = Num (imp * vf)
             in (AList.update variable k kDict,
                 entries @ [\<lparr>ce_crop = cropName, ce_variable = variable, ce_range = Some r,
                              ce_importance = imp, ce_variation_factor = Some vf,
                              ce_k_value = k, ce_missing = False\<rparr>]))
        | None \<Rightarrow>
            (let k = (if imp = 0 then Null else Num imp)
             in (AList.update variable k kDict,
                 entries @ [\<lparr>ce_crop = cropName, ce_variable = variable, ce_range = None,
                              ce_importance = imp, ce_variation_factor = None,
                              ce_k_value = k, ce_missing = True\<rparr>])))"

text \<open>The body of the crop loop from \<open>kDict = {}\<close> on, for a crop with weather data.\<close>

definition crop_k_values :: "string \<Rightarrow> day list \<Rightarrow> real obj \<Rightarrow> jsval obj \<times> cal_entry list" where
  "crop_k_values cropName days baseImportance =
     k_loop cropName days (normalize_ranges (raw_ranges days baseImportance [])) baseImportance
       ([], [])"

text \<open>
  The crop objects live in a store: \<open>crops\<close> maps each name to the address of its
  object, and \<open>{ ...crops }\<close> copies the references only. The state threaded through
  the crop loop is the store, \<open>calibrationLogs\<close> and the caller's \<open>logs.errors\<close>.
\<close>

type_synonym store = "nat \<Rightarrow> crop"

record cal_state =
  cs_store :: store
  cs_calibrationLogs :: "cal_entry list"
  cs_errors :: "string list"

fun calibrate_loop :: "nat obj \<Rightarrow> real obj \<Rightarrow> cal_state \<Rightarrow> cal_state" where
  "calibrate_loop [] baseImportance st = st"
| "calibrate_loop ((cropName, a) # rest) baseImportance st =
     calibrate_loop rest baseImportance
       (case daily_weather (cs_store st a) of
          None \<Rightarrow> st\<lparr>cs_errors := cs_errors st @ [cropName]\<rparr>
        | Some days \<Rightarrow>
            if days = [] then st\<lparr>cs_errors := cs_errors st @ [cropName]\<rparr>
            else (let (kDict, entries) = crop_k_values cropName days baseImportance
                  in st\<lparr>cs_store := (cs_store st)(a := (cs_store st a)\<lparr>k_values := Some kDict\<rparr>),
                        cs_calibrationLogs := cs_calibrationLogs st @ entries\<rparr>))"

text \<open>
  \<open>computeCropKValues(crops, baseImportance, logs)\<close> returns \<open>updatedCrops\<close> and
  \<open>calibrationLogs\<close>; the store and \<open>logs.errors\<close> after the call are returned with them.
\<close>

definition computeCropKValues :: "nat obj \<Rightarrow> real obj \<Rightarrow> string list \<Rightarrow> store \<Rightarrow>
    nat obj \<times> cal_entry list \<times> string list \<times> store" where
  "computeCropKValues crops baseImportance errors s =
     (let updatedCrops = crops;
          st = calibrate_loop updatedCrops baseImportance
                 \<lparr>cs_store = s, cs_calibrationLogs = [], cs_errors = errors\<rparr>
      in (updatedCrops, cs_calibrationLogs st, cs_errors st, cs_store st))"

section \<open>Matching: configuration, results and the log\<close>

record config =
  STEP_SIZE :: nat
  MAX_NAN_RATIO :: real
  DEFAULT_K :: real
  REQUIRED_FIELDS :: "string list"

definition DEFAULT_CONFIG :: config where
  "DEFAULT_CONFIG =
     \<lparr>STEP_SIZE = 30, MAX_NAN_RATIO = 15 / 100, DEFAULT_K = 2,
      REQUIRED_FIELDS =
        [''soil_moisture_0_to_10cm_mean'', ''temperature_2m_max'', ''temperature_2m_min'',
         ''wind_speed_10m_mean'', ''relative_humidity_2m_mean'', ''precipitation_sum'']\<rparr>"

text \<open>The caller's overrides: every option may be left out.\<close>

record client_config =
  cc_STEP_SIZE :: "nat option"
  cc_MAX_NAN_RATIO :: "real option"
  cc_DEFAULT_K :: "real option"
  cc_REQUIRED_FIELDS :: "string list option"

text \<open>\<open>{ ...DEFAULT_CONFIG, ...clientConfig }\<close>\<close>

definition merge_config :: "client_config \<Rightarrow> config" where
  "merge_config c =
     \<lparr>STEP_SIZE = (case cc_STEP_SIZE c of None \<Rightarrow> STEP_SIZE DEFAULT_CONFIG | Some v \<Rightarrow> v),
      MAX_NAN_RATIO =
        (case cc_MAX_NAN_RATIO c of None \<Rightarrow> MAX_NAN_RATIO DEFAULT_CONFIG | Some v \<Rightarrow> v),
      DEFAULT_K = (case cc_DEFAULT_K c of None \<Rightarrow> DEFAULT_K DEFAULT_CONFIG | Some v \<Rightarrow> v),
      REQUIRED_FIELDS =
        (case cc_REQUIRED_FIELDS c of None \<Rightarrow> REQUIRED_FIELDS DEFAULT_CONFIG | Some v \<Rightarrow> v)\<rparr>"

text \<open>
  The texts of the warnings and errors, one constructor per message of the source; the
  numbers a message prints are its arguments.
\<close>

datatype message =
    VarNotFound string
  | NoValidPoints string
  | ErrorProcessingVariable string
  | NoValidScoresComputed
  | InsufficientData real real
  | NoValidScoreProduced
  | Disqualified nat nat
  | NoKValuesFound
  | MissingKValue string
  | NoValidWindowsFound
  | ErrorProcessingCrop string

record var_detail =
  vd_k_value :: real
  vd_weight :: real
  vd_valid_points :: nat
  vd_nan_forecast :: nat
  vd_nan_optimal :: nat
  vd_avg_rel_delta :: real
  vd_score :: real
  vd_weighted_score :: real

text \<open>
  A window's entry in the log. The entry written for a window with insufficient data has
  no \<open>variables\<close> field: \<open>wl_variables\<close> is \<open>None\<close> there.
\<close>

record window_log =
  wl_variables :: "var_detail obj option"
  wl_warnings :: "message list"
  wl_final_score :: "real option"

record windows_stats =
  total_windows :: nat
  insufficient_data :: nat
  valid_windows :: nat

text \<open>
  A window is named by the ISO date of its first day; the key used here is the number of
  that day (the timestamp divided by the milliseconds of a day).
\<close>

record crop_log =
  cl_windows :: "(int \<times> window_log) list"
  cl_warnings :: "message list"
  cl_duration_days :: "nat option"
  cl_region :: "string option"
  cl_variety :: "string option"
  cl_k_values_used :: "jsval obj option"
  cl_normalized_weights :: "jsval obj option"
  cl_windows_stats :: "windows_stats option"
  cl_top_windows :: "int list option"

record summary =
  crops_processed :: nat
  crops_disqualified_duration :: nat
  crops_no_valid_windows :: nat
  crops_successful :: nat
  total_windows_processed :: nat
  windows_insufficient_data :: nat
  windows_successful :: nat

record error_entry =
  er_message :: message
  er_crop :: "string option"
  er_window_start :: "int option"

record log_data =
  ld_summary :: summary
  ld_crop_logs :: "crop_log obj"
  ld_errors :: "error_entry list"

record window_result =
  wr_start :: int
  wr_score :: real
  wr_variable_details :: "var_detail obj option"

record crop_result =
  cr_name :: string
  cr_variety :: "string option"
  cr_region :: "string option"
  cr_duration_days :: nat
  cr_k_values_used :: "jsval obj"
  cr_windows :: "window_result list"

definition initial_log :: log_data where
  "initial_log =
     \<lparr>ld_summary =
        \<lparr>crops_processed = 0, crops_disqualified_duration = 0, crops_no_valid_windows = 0,
         crops_successful = 0, total_windows_processed = 0, windows_insufficient_data = 0,
         windows_successful = 0\<rparr>,
      ld_crop_logs = [], ld_errors = []\<rparr>"

text \<open>\<open>DEFAULT_VARIABLE_WEIGHTS\<close>\<close>

definition default_variable_weights :: "config \<Rightarrow> jsval obj" where
  "default_variable_weights cfg =
     fold (\<lambda>field w. AList.update field (Num (1 / real (length (REQUIRED_FIELDS cfg)))) w)
       (REQUIRED_FIELDS cfg) []"

text \<open>\<open>logError(message, cropName, windowStart)\<close>, on the list \<open>logData.errors\<close>.\<close>

definition logError :: "message \<Rightarrow> string \<Rightarrow> int option \<Rightarrow> error_entry list \<Rightarrow> error_entry list" where
  "logError msg cropName windowStart errs =
     errs @ [\<lparr>er_message = msg,
              er_crop = (if cropName = [] then None else Some cropName),
              er_window_start = windowStart\<rparr>]"

section \<open>Scoring: \<open>safeExp\<close>, \<open>logisticScore\<close>, \<open>computeScore\<close>\<close>

definition safeExp :: "real list \<Rightarrow> real list" where
  "safeExp x = map (\<lambda>val. exp (max (- 709) (min 709 val))) x"

definition logisticScore :: "real list \<Rightarrow> real \<Rightarrow> real list" where
  "logisticScore relDelta k =
     (let powValues = map sqrt relDelta;
          negK = map (\<lambda>v. - k * v) powValues;
          expValues = safeExp negK
      in map (\<lambda>e. 1 / (1 + e)) expValues)"

text \<open>\<open>days.every((day) => varName in day)\<close>\<close>

definition every_day_has :: "string \<Rightarrow> day list \<Rightarrow> bool" where
  "every_day_has varName days = list_all (\<lambda>d. has_key varName (vals d)) days"

text \<open>\<open>arr[i]\<close> on an array of values: past the end it reads \<open>undefined\<close>.\<close>

definition elem_at :: "jsval list \<Rightarrow> nat \<Rightarrow> jsval" where
  "elem_at xs i = (if i < length xs then xs ! i else Undefined)"

text \<open>The test under which the pair of day \<open>i\<close> is pushed.\<close>

definition pair_ok :: "jsval \<Rightarrow> jsval \<Rightarrow> bool" where
  "pair_ok f opt = (f \<noteq> Null \<and> \<not> isNaN f \<and> opt \<noteq> Null \<and> \<not> isNaN opt)"

definition valid_pairs :: "jsval list \<Rightarrow> jsval list \<Rightarrow> (real \<times> real) list" where
  "valid_pairs forecastVals optimalVals =
     concat (map (\<lambda>i. if pair_ok (elem_at forecastVals i) (elem_at optimalVals i)
                       then [(num_val (elem_at forecastVals i), num_val (elem_at optimalVals i))]
                       else [])
                 [0..<length forecastVals])"

definition rel_delta :: "real \<times> real \<Rightarrow> real" where
  "rel_delta p = \<bar>fst p - snd p\<bar> / (\<bar>snd p\<bar> + 1 / 100000)"

record score_acc =
  sa_scores :: "real list"
  sa_totalWeight :: real
  sa_windowLog :: window_log
  sa_errors :: "error_entry list"

definition push_warning :: "message \<Rightarrow> window_log \<Rightarrow> window_log" where
  "push_warning w wl = wl\<lparr>wl_warnings := wl_warnings wl @ [w]\<rparr>"

text \<open>
  One turn of the loop over \<open>CONFIG.REQUIRED_FIELDS\<close>. The only statement of the
  \<open>try\<close> block that can throw is the assignment to \<open>windowLog.variables[varName]\<close>,
  when the window's entry has no \<open>variables\<close>; the score and the weight are pushed
  before it.
\<close>

definition score_variable :: "config \<Rightarrow> day list \<Rightarrow> day list \<Rightarrow> jsval obj \<Rightarrow> jsval obj \<Rightarrow>
    string \<Rightarrow> int \<Rightarrow> string \<Rightarrow> score_acc \<Rightarrow> score_acc" where
  "score_variable cfg windowData cropData kValues variableWeights cropName windowStart varName acc =
     (if \<not> every_day_has varName windowData \<or> \<not> every_day_has varName cropData
      then acc\<lparr>sa_windowLog := push_warning (VarNotFound varName) (sa_windowLog acc)\<rparr>
      else
        let forecastVals = map (\<lambda>d. get (vals d) varName) windowData;
            optimalVals = map (\<lambda>d. get (vals d) varName) cropData;
            nanForecast = length (filter (\<lambda>v. v = Null \<or> isNaN v) forecastVals);
            nanOptimal = length (filter (\<lambda>v. v = Null \<or> isNaN v) optimalVals);
            validPairs = valid_pairs forecastVals optimalVals;
            validCount = length validPairs
        in if validCount = 0
           then acc\<lparr>sa_windowLog := push_warning (NoValidPoints varName) (sa_windowLog acc)\<rparr>
           else
             let k = or_default (get kValues varName) (DEFAULT_K cfg);
                 weight = or_default (get variableWeights varName)
                            (1 / real (length (REQUIRED_FIELDS cfg)));
                 relDeltas = map rel_delta validPairs;
                 dailyScores = logisticScore relDeltas k;
                 variableScore = sum_list dailyScores / real (length dailyScores);
                 weightedScore = variableScore * weight;
                 acc1 = acc\<lparr>sa_scores := sa_scores acc @ [weightedScore],
                            sa_totalWeight := sa_totalWeight acc + weight\<rparr>
             in case wl_variables (sa_windowLog acc1) of
                  None \<Rightarrow>
                    acc1\<lparr>sa_errors := logError (ErrorProcessingVariable varName) cropName
                                         (Some windowStart) (sa_errors acc1),
                         sa_windowLog := push_warning (ErrorProcessingVariable varName)
                                           (sa_windowLog acc1)\<rparr>
                | Some vars \<Rightarrow>
                    acc1\<lparr>sa_windowLog := (sa_windowLog acc1)
                           \<lparr>wl_variables := Some (AList.update varName
                              \<lparr>vd_k_value = k, vd_weight = weight, vd_valid_points = validCount,
                               vd_nan_forecast = nanForecast, vd_nan_optimal = nanOptimal,
                               vd_avg_rel_delta = sum_list relDeltas / real (length relDeltas),
                               vd_score = variableScore, vd_weighted_score = weightedScore\<rparr>
                              vars)\<rparr>\<rparr>)"

text \<open>The entries \<open>computeScore\<close> creates when the log has none yet.\<close>

definition fresh_crop_log :: "jsval obj \<Rightarrow> crop_log" where
  "fresh_crop_log kValues =
     \<lparr>cl_windows = [], cl_warnings = [], cl_duration_days = None, cl_region = None,
      cl_variety = None, cl_k_values_used = Some kValues, cl_normalized_weights = None,
      cl_windows_stats = None, cl_top_windows = None\<rparr>"

definition fresh_window_log :: window_log where
  "fresh_window_log = \<lparr>wl_variables = Some [], wl_warnings = [], wl_final_score = None\<rparr>"

text \<open>
  \<open>computeScore\<close> returns the pair \<open>[score, details]\<close> (\<open>null\<close> is \<open>None\<close>) and the
  log after the call. The window's entry is read from the log, changed by the loop and
  written back.
\<close>

definition computeScore :: "config \<Rightarrow> day list \<Rightarrow> day list \<Rightarrow> jsval obj \<Rightarrow> jsval obj \<Rightarrow>
    string \<Rightarrow> int \<Rightarrow> log_data \<Rightarrow> (real option \<times> var_detail obj option) \<times> log_data" where
  "computeScore cfg windowData cropData kValues variableWeights cropName windowStart logData =
     (let cropLog = (case map_of (ld_crop_logs logData) cropName of
                       None \<Rightarrow> fresh_crop_log kValues | Some cl \<Rightarrow> cl);
          windowLog = (case map_of (cl_windows cropLog) windowStart of
                         None \<Rightarrow> fresh_window_log | Some wl \<Rightarrow> wl);
          acc = fold (score_variable cfg windowData cropData kValues variableWeights
                        cropName windowStart)
                  (REQUIRED_FIELDS cfg)
                  \<lparr>sa_scores = [], sa_totalWeight = 0, sa_windowLog = windowLog,
                   sa_errors = ld_errors logData\<rparr>;
          store_back = (\<lambda>wl. logData
             \<lparr>ld_crop_logs := AList.update cropName
                (cropLog\<lparr>cl_windows := AList.update windowStart wl (cl_windows cropLog)\<rparr>)
                (ld_crop_logs logData),
              ld_errors := sa_errors acc\<rparr>)
      in if sa_scores acc = [] \<or> sa_totalWeight acc = 0
         then ((None, None), store_back (push_warning NoValidScoresComputed (sa_windowLog acc)))
         else
           let finalScore = sum_list (sa_scores acc) / sa_totalWeight acc
           in ((Some finalScore, wl_variables (sa_windowLog acc)),
               store_back ((sa_windowLog acc)\<lparr>wl_final_score := Some finalScore\<rparr>)))"

section \<open>Matching: \<open>processCrops\<close> and \<open>runCropMatching\<close>\<close>

text \<open>\<open>date.toISOString().split("T")[0]\<close>, as the number of the day.\<close>

definition iso_day :: "int \<Rightarrow> int" where
  "iso_day t = t div 86400000"

text \<open>\<open>Math.round(score * 10000) / 10000\<close>; \<open>Math.round\<close> rounds halves up.\<close>

definition round4 :: "real \<Rightarrow> real" where
  "round4 s = of_int \<lfloor>s * 10000 + 1 / 2\<rfloor> / 10000"

text \<open>The object \<open>cropLog\<close> is the log's entry of the crop: every write goes to that entry.\<close>

definition upd_crop_log :: "string \<Rightarrow> (crop_log \<Rightarrow> crop_log) \<Rightarrow> log_data \<Rightarrow> log_data" where
  "upd_crop_log cropName f logData =
     logData\<lparr>ld_crop_logs := AList.map_entry cropName f (ld_crop_logs logData)\<rparr>"

definition upd_summary :: "(summary \<Rightarrow> summary) \<Rightarrow> log_data \<Rightarrow> log_data" where
  "upd_summary f logData = logData\<lparr>ld_summary := f (ld_summary logData)\<rparr>"

definition crop_warning :: "string \<Rightarrow> message \<Rightarrow> log_data \<Rightarrow> log_data" where
  "crop_warning cropName w =
     upd_crop_log cropName (\<lambda>cl. cl\<lparr>cl_warnings := cl_warnings cl @ [w]\<rparr>)"

definition upd_stats :: "string \<Rightarrow> (windows_stats \<Rightarrow> windows_stats) \<Rightarrow> log_data \<Rightarrow> log_data" where
  "upd_stats cropName f =
     upd_crop_log cropName (\<lambda>cl. cl\<lparr>cl_windows_stats := map_option f (cl_windows_stats cl)\<rparr>)"

text \<open>The k values of the required fields that are present and not \<open>null\<close>.\<close>

definition valid_k_values :: "config \<Rightarrow> jsval obj \<Rightarrow> jsval obj" where
  "valid_k_values cfg kValues =
     fold (\<lambda>field vk. if has_key field kValues \<and> get kValues field \<noteq> Null
                       then AList.update field (get kValues field) vk else vk)
       (REQUIRED_FIELDS cfg) []"

text \<open>\<open>Object.values(validKValues).reduce((sum, val) => sum + val, 0) || 1\<close>\<close>

definition kSum :: "jsval obj \<Rightarrow> real" where
  "kSum validKValues =
     or_default (fold (\<lambda>val sum. js_add sum val) (map snd validKValues) (Num 0)) 1"

definition normalized_weights :: "jsval obj \<Rightarrow> jsval obj" where
  "normalized_weights validKValues =
     fold (\<lambda>field w. AList.update field (js_div (get validKValues field) (kSum validKValues)) w)
       (map fst validKValues) []"

text \<open>
  The weights of a crop: the normalized k values when the crop has k values, the default
  weights otherwise.
\<close>

definition variable_weights :: "config \<Rightarrow> jsval obj \<Rightarrow> jsval obj \<Rightarrow> jsval obj" where
  "variable_weights cfg dvw kValues =
     (if kValues \<noteq> [] then normalized_weights (valid_k_values cfg kValues) else dvw)"

text \<open>What the same block writes to the crop's log: the warnings for missing k values
  and \<open>normalized_weights\<close>.\<close>

definition log_weights :: "config \<Rightarrow> jsval obj \<Rightarrow> jsval obj \<Rightarrow> string \<Rightarrow> log_data \<Rightarrow> log_data" where
  "log_weights cfg dvw kValues cropName logData =
     (if kValues \<noteq> []
      then
        let validKValues = valid_k_values cfg kValues;
            logData1 = fold (\<lambda>field l. if \<not> has_key field validKValues
                                         then crop_warning cropName (MissingKValue field) l else l)
                         (REQUIRED_FIELDS cfg) logData
        in upd_crop_log cropName
             (\<lambda>cl. cl\<lparr>cl_normalized_weights := Some (normalized_weights validKValues)\<rparr>) logData1
      else upd_crop_log cropName (\<lambda>cl. cl\<lparr>cl_normalized_weights := Some dvw\<rparr>) logData)"

text \<open>The count of valid data points of a window.\<close>

definition gate_valid :: "day \<Rightarrow> string \<Rightarrow> bool" where
  "gate_valid d field =
     (has_key field (vals d) \<and> get (vals d) field \<noteq> Null \<and> \<not> isNaN (get (vals d) field))"

definition validValues :: "config \<Rightarrow> day list \<Rightarrow> nat" where
  "validValues cfg windowDf =
     sum_list (map (\<lambda>d. length (filter (gate_valid d) (REQUIRED_FIELDS cfg))) windowDf)"

text \<open>
  \<open>dataRatio < 1 - CONFIG.MAX_NAN_RATIO\<close>. With no required field the ratio is
  \<open>0 / 0\<close>, which is \<open>NaN\<close> and smaller than nothing.
\<close>

definition insufficient :: "config \<Rightarrow> nat \<Rightarrow> day list \<Rightarrow> bool" where
  "insufficient cfg duration windowDf =
     (let totalValues = duration * length (REQUIRED_FIELDS cfg)
      in totalValues \<noteq> 0 \<and>
         real (validValues cfg windowDf) / real totalValues < 1 - MAX_NAN_RATIO cfg)"

record win_state =
  ws_log :: log_data
  ws_cropWindows :: "window_result list"

text \<open>
  The body of the loop over the window starts. \<open>Inl\<close> is the state in which a
  \<open>TypeError\<close> leaves the loop: \<open>windowDf[0].date\<close> on an empty slice.
\<close>

definition window_body :: "config \<Rightarrow> day list \<Rightarrow> day list \<Rightarrow> jsval obj \<Rightarrow> jsval obj \<Rightarrow>
    string \<Rightarrow> nat \<Rightarrow> win_state \<Rightarrow> win_state + win_state" where
  "window_body cfg forecastDf cropDf kValues variableWeights cropName i st =
     (let duration = length cropDf;
          log1 = upd_stats cropName (\<lambda>s. s\<lparr>total_windows := total_windows s + 1\<rparr>)
                   (upd_summary (\<lambda>s. s\<lparr>total_windows_processed := total_windows_processed s + 1\<rparr>)
                      (ws_log st));
          windowDf = take duration (drop i forecastDf)
      in case windowDf of
           [] \<Rightarrow> Inl (st\<lparr>ws_log := log1\<rparr>)
         | d0 # ds \<Rightarrow>
             let windowStart = iso_day (date d0)
             in if insufficient cfg duration windowDf
                then
                  let w = InsufficientData
                            (real (validValues cfg windowDf) /
                               real (duration * length (REQUIRED_FIELDS cfg)) * 100)
                            ((1 - MAX_NAN_RATIO cfg) * 100);
                      log2 = upd_crop_log cropName
                        (\<lambda>cl. cl\<lparr>cl_windows :=
                           (case map_of (cl_windows cl) windowStart of
                              None \<Rightarrow> AList.update windowStart
                                \<lparr>wl_variables = None, wl_warnings = [w], wl_final_score = None\<rparr>
                                (cl_windows cl)
                            | Some wl \<Rightarrow> AList.update windowStart (push_warning w wl)
                                (cl_windows cl))\<rparr>) log1;
                      log3 = upd_stats cropName
                               (\<lambda>s. s\<lparr>insufficient_data := insufficient_data s + 1\<rparr>) log2;
                      log4 = upd_summary
                               (\<lambda>s. s\<lparr>windows_insufficient_data := windows_insufficient_data s + 1\<rparr>)
                               log3
                  in Inr (st\<lparr>ws_log := log4\<rparr>)
                else
                  let ((score, details), log2) =
                        computeScore cfg windowDf cropDf kValues variableWeights cropName
                          windowStart log1
                  in (case score of
                       Some sc \<Rightarrow>
                         let log3 = upd_stats cropName
                                      (\<lambda>s. s\<lparr>valid_windows := valid_windows s + 1\<rparr>) log2;
                             log4 = upd_summary
                                      (\<lambda>s. s\<lparr>windows_successful := windows_successful s + 1\<rparr>) log3;
                             log5 = upd_crop_log cropName
                               (\<lambda>cl. cl\<lparr>cl_windows :=
                                  (case map_of (cl_windows cl) windowStart of
                                     None \<Rightarrow> AList.update windowStart
                                       \<lparr>wl_variables = details, wl_warnings = [],
                                        wl_final_score = Some sc\<rparr> (cl_windows cl)
                                   | Some wl \<Rightarrow> AList.update windowStart
                                       (wl\<lparr>wl_final_score := Some sc, wl_variables := details\<rparr>)
                                       (cl_windows cl))\<rparr>) log4
                         in Inr \<lparr>ws_log = log5,
                                 ws_cropWindows = ws_cropWindows st @
                                   [\<lparr>wr_start = windowStart, wr_score = round4 sc,
                                     wr_variable_details = details\<rparr>]\<rparr>
                     | None \<Rightarrow>
                         let log3 = upd_crop_log cropName
                               (\<lambda>cl. cl\<lparr>cl_windows :=
                                  (case map_of (cl_windows cl) windowStart of
                                     None \<Rightarrow> AList.update windowStart
                                       \<lparr>wl_variables = Some [],
                                        wl_warnings = [NoValidScoreProduced],
                                        wl_final_score = None\<rparr> (cl_windows cl)
                                   | Some wl \<Rightarrow> AList.update windowStart
                                       (push_warning NoValidScoreProduced wl)
                                       (cl_windows cl))\<rparr>) log2
                         in Inr (st\<lparr>ws_log := log3\<rparr>)))"

text \<open>
  \<open>for (let i = 0; i <= forecastDf.length - duration; i += CONFIG.STEP_SIZE)\<close>.
  With a step of 0 the loop does not end; the result is \<open>None\<close> then.
\<close>

partial_function (option) window_loop :: "config \<Rightarrow> day list \<Rightarrow> day list \<Rightarrow> jsval obj \<Rightarrow>
    jsval obj \<Rightarrow> string \<Rightarrow> nat \<Rightarrow> win_state \<Rightarrow> (win_state + win_state) option" where
  "window_loop cfg forecastDf cropDf kValues variableWeights cropName i st =
     (if int i \<le> int (length forecastDf) - int (length cropDf)
      then (case window_body cfg forecastDf cropDf kValues variableWeights cropName i st of
              Inl thrown \<Rightarrow> Some (Inl thrown)
            | Inr st' \<Rightarrow>
                window_loop cfg forecastDf cropDf kValues variableWeights cropName
                  (i + STEP_SIZE cfg) st')
      else Some (Inr st))"

text \<open>The \<open>catch\<close> of the crop loop.\<close>

definition catch_crop :: "string \<Rightarrow> log_data \<Rightarrow> log_data" where
  "catch_crop cropName logData =
     crop_warning cropName (ErrorProcessingCrop cropName)
       (logData\<lparr>ld_errors := logError (ErrorProcessingCrop cropName) cropName None
                                (ld_errors logData)\<rparr>)"

text \<open>\<open>s || "Unknown"\<close>\<close>

definition or_unknown :: "string option \<Rightarrow> string" where
  "or_unknown s = (case s of None \<Rightarrow> ''Unknown'' | Some v \<Rightarrow> if v = [] then ''Unknown'' else v)"

definition init_crop_log :: "string \<Rightarrow> crop \<Rightarrow> nat \<Rightarrow> log_data \<Rightarrow> log_data" where
  "init_crop_log cropName c duration logData =
     (if map_of (ld_crop_logs logData) cropName = None
      then logData\<lparr>ld_crop_logs := AList.update cropName
             \<lparr>cl_windows = [], cl_warnings = [], cl_duration_days = Some duration,
              cl_region = Some (or_unknown (region c)), cl_variety = Some (or_unknown (variety c)),
              cl_k_values_used = None, cl_normalized_weights = None, cl_windows_stats = None,
              cl_top_windows = None\<rparr> (ld_crop_logs logData)\<rparr>
      else logData)"

text \<open>\<open>crop.k_values || {}\<close>\<close>

definition crop_kValues :: "crop \<Rightarrow> jsval obj" where
  "crop_kValues c = (case k_values c of None \<Rightarrow> [] | Some kv \<Rightarrow> kv)"

text \<open>
  The statements between the duration check and the loop over the windows, on the log:
  the warning for a crop without k values, \<open>k_values_used\<close>, the weights and the fresh
  \<open>windows_stats\<close>.
\<close>

definition before_windows :: "config \<Rightarrow> jsval obj \<Rightarrow> string \<Rightarrow> jsval obj \<Rightarrow> log_data \<Rightarrow> log_data" where
  "before_windows cfg dvw cropName kValues log1 =
     (let log2 = (if kValues = [] then crop_warning cropName NoKValuesFound log1 else log1);
          log3 = upd_crop_log cropName (\<lambda>cl. cl\<lparr>cl_k_values_used := Some kValues\<rparr>) log2;
          log4 = log_weights cfg dvw kValues cropName log3
      in upd_crop_log cropName
           (\<lambda>cl. cl\<lparr>cl_windows_stats :=
              Some \<lparr>total_windows = 0, insufficient_data = 0, valid_windows = 0\<rparr>\<rparr>) log4)"

text \<open>The statements after the loop over the windows.\<close>

definition after_windows :: "string \<Rightarrow> crop \<Rightarrow> nat \<Rightarrow> jsval obj \<Rightarrow> crop_result list \<Rightarrow>
    win_state \<Rightarrow> crop_result list \<times> log_data" where
  "after_windows cropName c duration kValues results st =
     (if ws_cropWindows st \<noteq> []
      then
        let log6 = upd_summary (\<lambda>s. s\<lparr>crops_successful := crops_successful s + 1\<rparr>) (ws_log st);
            cropWindows = sort_key (\<lambda>w. - wr_score w) (ws_cropWindows st);
            log7 = upd_crop_log cropName
                     (\<lambda>cl. cl\<lparr>cl_top_windows := Some (map wr_start (take 3 cropWindows))\<rparr>) log6
        in (results @
              [\<lparr>cr_name = cropName, cr_variety = variety c, cr_region = region c,
                cr_duration_days = duration, cr_k_values_used = kValues,
                cr_windows = cropWindows\<rparr>],
            log7)
      else
        (results,
         crop_warning cropName NoValidWindowsFound
           (upd_summary (\<lambda>s. s\<lparr>crops_no_valid_windows := crops_no_valid_windows s + 1\<rparr>)
              (ws_log st))))"

text \<open>
  One turn of the loop over the crops, on the pair of \<open>results\<close> and \<open>logData\<close>.
  A crop without \<open>daily_weather\<close> throws at \<open>crop.daily_weather.map\<close>.
\<close>

definition process_crop :: "config \<Rightarrow> day list \<Rightarrow> jsval obj \<Rightarrow> string \<times> crop \<Rightarrow>
    crop_result list \<times> log_data \<Rightarrow> (crop_result list \<times> log_data) option" where
  "process_crop cfg forecastDf dvw nc rl =
     (let cropName = fst nc; c = snd nc; results = fst rl;
          log0 = upd_summary (\<lambda>s. s\<lparr>crops_processed := crops_processed s + 1\<rparr>) (snd rl)
      in case daily_weather c of
           None \<Rightarrow> Some (results, catch_crop cropName log0)
         | Some dw \<Rightarrow>
             let cropDf = sort_key date dw;
                 duration = length cropDf;
                 log1 = init_crop_log cropName c duration log0
             in if duration > length forecastDf
                then Some (results,
                       upd_summary
                         (\<lambda>s. s\<lparr>crops_disqualified_duration := crops_disqualified_duration s + 1\<rparr>)
                         (crop_warning cropName (Disqualified duration (length forecastDf)) log1))
                else
                  let kValues = crop_kValues c;
                      variableWeights = variable_weights cfg dvw kValues;
                      log5 = before_windows cfg dvw cropName kValues log1
                  in (case window_loop cfg forecastDf cropDf kValues variableWeights cropName 0
                            \<lparr>ws_log = log5, ws_cropWindows = []\<rparr> of
                       None \<Rightarrow> None
                     | Some (Inl thrown) \<Rightarrow> Some (results, catch_crop cropName (ws_log thrown))
                     | Some (Inr st) \<Rightarrow>
                         Some (after_windows cropName c duration kValues results st)))"

fun crop_loop :: "config \<Rightarrow> day list \<Rightarrow> jsval obj \<Rightarrow> crop obj \<Rightarrow>
    crop_result list \<times> log_data \<Rightarrow> (crop_result list \<times> log_data) option" where
  "crop_loop cfg forecastDf dvw [] rl = Some rl"
| "crop_loop cfg forecastDf dvw (nc # rest) rl =
     (case process_crop cfg forecastDf dvw nc rl of
        None \<Rightarrow> None
      | Some rl' \<Rightarrow> crop_loop cfg forecastDf dvw rest rl')"

text \<open>
  \<open>runCropMatching(crops, forecastData, clientConfig)\<close>: the pair of \<open>results\<close> and
  \<open>logs\<close>, or \<open>None\<close> when the call does not return.
\<close>

definition runCropMatching :: "crop obj \<Rightarrow> day list \<Rightarrow> client_config \<Rightarrow>
    (crop_result list \<times> log_data) option" where
  "runCropMatching crops forecastData clientConfig =
     (let CONFIG = merge_config clientConfig;
          forecastDf = sort_key date forecastData
      in crop_loop CONFIG forecastDf (default_variable_weights CONFIG) crops ([], initial_log))"

section \<open>Specification of the scores\<close>

text \<open>
  The definitions of this section are not translated from the source. They state, in the
  words of the specification, what the loops of the source are proved to compute.
\<close>

text \<open>A variable produces a score for a window when every day of both sides has it and
  at least one day has a valid value on both sides.\<close>

definition produces_score :: "day list \<Rightarrow> day list \<Rightarrow> string \<Rightarrow> bool" where
  "produces_score windowData cropData v =
     (every_day_has v windowData \<and> every_day_has v cropData \<and>
      valid_pairs (map (\<lambda>d. get (vals d) v) windowData) (map (\<lambda>d. get (vals d) v) cropData) \<noteq> [])"

text \<open>The k and the weight a variable is scored with.\<close>

definition k_used :: "config \<Rightarrow> jsval obj \<Rightarrow> string \<Rightarrow> real" where
  "k_used cfg kValues v = or_default (get kValues v) (DEFAULT_K cfg)"

definition weight_used :: "config \<Rightarrow> jsval obj \<Rightarrow> string \<Rightarrow> real" where
  "weight_used cfg variableWeights v =
     or_default (get variableWeights v) (1 / real (length (REQUIRED_FIELDS cfg)))"

text \<open>The score of a variable: the mean of the logistic scores of its valid days.\<close>

definition variable_score :: "config \<Rightarrow> day list \<Rightarrow> day list \<Rightarrow> jsval obj \<Rightarrow> string \<Rightarrow> real" where
  "variable_score cfg windowData cropData kValues v =
     (let dailyScores = logisticScore
            (map rel_delta (valid_pairs (map (\<lambda>d. get (vals d) v) windowData)
                                        (map (\<lambda>d. get (vals d) v) cropData)))
            (k_used cfg kValues v)
      in sum_list dailyScores / real (length dailyScores))"

text \<open>
  The score of a window: the sum of the weighted scores over the sum of the weights of
  the variables that produced a score; \<open>None\<close> when there is no such variable or the
  sum of their weights is 0.
\<close>

definition window_score :: "config \<Rightarrow> day list \<Rightarrow> day list \<Rightarrow> jsval obj \<Rightarrow> jsval obj \<Rightarrow>
    real option" where
  "window_score cfg windowData cropData kValues variableWeights =
     (let used = filter (produces_score windowData cropData) (REQUIRED_FIELDS cfg);
          weightSum = sum_list (map (weight_used cfg variableWeights) used)
      in if used = [] \<or> weightSum = 0 then None
         else Some (sum_list (map (\<lambda>v. variable_score cfg windowData cropData kValues v *
                                        weight_used cfg variableWeights v) used) / weightSum))"

text \<open>The window starts \<open>i, i + step, ...\<close> with \<open>i + duration \<le> n\<close>.\<close>

function starts_from :: "nat \<Rightarrow> nat \<Rightarrow> nat \<Rightarrow> nat \<Rightarrow> nat list" where
  "starts_from step n duration i =
     (if step = 0 \<or> n < i + duration then []
      else i # starts_from step n duration (i + step))"
  by pat_completeness auto
termination
  by (relation "measure (\<lambda>(step, n, duration, i). Suc n - i)") auto

declare starts_from.simps [simp del]

text \<open>The window of a crop that starts at index \<open>i\<close> of the forecast.\<close>

definition window_at :: "day list \<Rightarrow> day list \<Rightarrow> nat \<Rightarrow> day list" where
  "window_at forecastDf cropDf i = take (length cropDf) (drop i forecastDf)"

text \<open>A window is rejected by the completeness gate.\<close>

definition rejected :: "config \<Rightarrow> day list \<Rightarrow> day list \<Rightarrow> nat \<Rightarrow> bool" where
  "rejected cfg forecastDf cropDf i =
     insufficient cfg (length cropDf) (window_at forecastDf cropDf i)"

text \<open>The start and the reported score of the window at \<open>i\<close>, when it has a score.\<close>

definition scored_window :: "config \<Rightarrow> day list \<Rightarrow> day list \<Rightarrow> jsval obj \<Rightarrow> jsval obj \<Rightarrow>
    nat \<Rightarrow> (int \<times> real) option" where
  "scored_window cfg forecastDf cropDf kValues variableWeights i =
     map_option (\<lambda>s. (iso_day (date (forecastDf ! i)), round4 s))
       (window_score cfg (window_at forecastDf cropDf i) cropDf kValues variableWeights)"

text \<open>The reported windows among the given starts: those that pass the completeness gate
  and have a score.\<close>

definition reported_windows :: "config \<Rightarrow> day list \<Rightarrow> day list \<Rightarrow> jsval obj \<Rightarrow> jsval obj \<Rightarrow>
    nat list \<Rightarrow> (int \<times> real) list" where
  "reported_windows cfg forecastDf cropDf kValues variableWeights starts =
     List.map_filter (scored_window cfg forecastDf cropDf kValues variableWeights)
       (filter (\<lambda>i. \<not> rejected cfg forecastDf cropDf i) starts)"

text \<open>The start and the score of a window of the results.\<close>

definition start_score :: "window_result \<Rightarrow> int \<times> real" where
  "start_score w = (wr_start w, wr_score w)"

text \<open>The \<open>windows_stats\<close> of a crop in the log.\<close>

definition stats_of :: "string \<Rightarrow> log_data \<Rightarrow> windows_stats option" where
  "stats_of cropName logData =
     Option.bind (map_of (ld_crop_logs logData) cropName) cl_windows_stats"

text \<open>The counters of the windows in the summary and in a crop's \<open>windows_stats\<close>,
  advanced by a number of windows, of rejected ones and of scored ones.\<close>

definition count_summary :: "nat \<Rightarrow> nat \<Rightarrow> nat \<Rightarrow> summary \<Rightarrow> summary" where
  "count_summary t r k s =
     s\<lparr>total_windows_processed := total_windows_processed s + t,
       windows_insufficient_data := windows_insufficient_data s + r,
       windows_successful := windows_successful s + k\<rparr>"

definition count_stats :: "nat \<Rightarrow> nat \<Rightarrow> nat \<Rightarrow> windows_stats \<Rightarrow> windows_stats" where
  "count_stats t r k s =
     s\<lparr>total_windows := total_windows s + t,
       insufficient_data := insufficient_data s + r,
       valid_windows := valid_windows s + k\<rparr>"

text \<open>The name of a crop of the results with the starts and scores of its windows.\<close>

definition reported_crop :: "crop_result \<Rightarrow> string \<times> (int \<times> real) list" where
  "reported_crop r = (cr_name r, map start_score (cr_windows r))"

text \<open>The window starts of a crop whose weather has \<open>duration\<close> days.\<close>

definition crop_starts :: "config \<Rightarrow> day list \<Rightarrow> nat \<Rightarrow> nat list" where
  "crop_starts cfg forecastDf duration =
     starts_from (STEP_SIZE cfg) (length forecastDf) duration 0"

text \<open>
  The starts and reported scores of the windows of a crop, in the order of the forecast:
  none for a crop without weather or with more days than the forecast.
\<close>

definition crop_reported :: "config \<Rightarrow> day list \<Rightarrow> jsval obj \<Rightarrow> crop \<Rightarrow> (int \<times> real) list" where
  "crop_reported cfg forecastDf dvw c =
     (case daily_weather c of
        None \<Rightarrow> []
      | Some dw \<Rightarrow>
          if dw = [] \<or> length forecastDf < length dw then []
          else reported_windows cfg forecastDf (sort_key date dw) (crop_kValues c)
                 (variable_weights cfg dvw (crop_kValues c))
                 (crop_starts cfg forecastDf (length dw)))"

text \<open>The summary after a crop, from the summary before it.\<close>

definition crop_summary :: "config \<Rightarrow> day list \<Rightarrow> jsval obj \<Rightarrow> crop \<Rightarrow> summary \<Rightarrow> summary" where
  "crop_summary cfg forecastDf dvw c s =
     (let s0 = s\<lparr>crops_processed := crops_processed s + 1\<rparr>
      in case daily_weather c of
           None \<Rightarrow> s0
         | Some dw \<Rightarrow>
             if length forecastDf < length dw
             then s0\<lparr>crops_disqualified_duration := crops_disqualified_duration s0 + 1\<rparr>
             else if dw = []
             then s0\<lparr>total_windows_processed := total_windows_processed s0 + 1\<rparr>
             else
               let starts = crop_starts cfg forecastDf (length dw);
                   s1 = count_summary (length starts)
                          (length (filter (rejected cfg forecastDf (sort_key date dw)) starts))
                          (length (crop_reported cfg forecastDf dvw c)) s0
               in if crop_reported cfg forecastDf dvw c = []
                  then s1\<lparr>crops_no_valid_windows := crops_no_valid_windows s1 + 1\<rparr>
                  else s1\<lparr>crops_successful := crops_successful s1 + 1\<rparr>)"

text \<open>The log has an entry for the crop.\<close>

definition has_log :: "string \<Rightarrow> log_data \<Rightarrow> bool" where
  "has_log cropName logData = (map_of (ld_crop_logs logData) cropName \<noteq> None)"

text \<open>The crops of the results with their windows, in the order of the crops.\<close>

definition run_reported :: "config \<Rightarrow> day list \<Rightarrow> jsval obj \<Rightarrow> crop obj \<Rightarrow>
    (string \<times> (int \<times> real) list) list" where
  "run_reported cfg forecastDf dvw crops =
     map (\<lambda>nc. (fst nc, sort_key (\<lambda>p. - snd p) (crop_reported cfg forecastDf dvw (snd nc))))
       (filter (\<lambda>nc. crop_reported cfg forecastDf dvw (snd nc) \<noteq> []) crops)"

text \<open>The summary after the crops.\<close>

definition run_summary :: "config \<Rightarrow> day list \<Rightarrow> jsval obj \<Rightarrow> crop obj \<Rightarrow> summary \<Rightarrow> summary" where
  "run_summary cfg forecastDf dvw crops s =
     fold (\<lambda>nc. crop_summary cfg forecastDf dvw (snd nc)) crops s"

text \<open>A crop with more days of weather than the forecast has.\<close>

definition too_long :: "day list \<Rightarrow> crop \<Rightarrow> bool" where
  "too_long forecastDf c =
     (case daily_weather c of None \<Rightarrow> False | Some dw \<Rightarrow> length forecastDf < length dw)"

text \<open>A crop that reaches the loop over the windows and gets no reported window.\<close>

definition without_windows :: "config \<Rightarrow> day list \<Rightarrow> jsval obj \<Rightarrow> crop \<Rightarrow> bool" where
  "without_windows cfg forecastDf dvw c =
     (case daily_weather c of
        None \<Rightarrow> False
      | Some dw \<Rightarrow> dw \<noteq> [] \<and> length dw \<le> length forecastDf \<and>
                   crop_reported cfg forecastDf dvw c = [])"


text \<open>The k values that are numbers are not negative.\<close>

definition no_negative_k :: "jsval obj \<Rightarrow> bool" where
  "no_negative_k kValues =
     list_all (\<lambda>p. case snd p of Num r \<Rightarrow> 0 \<le> r | _ \<Rightarrow> True) kValues"

text \<open>The values of an object are numbers; the sum of the numbers of an object.\<close>

definition all_numbers :: "jsval obj \<Rightarrow> bool" where
  "all_numbers ob = list_all (\<lambda>p. case snd p of Num r \<Rightarrow> True | _ \<Rightarrow> False) ob"

definition number_sum :: "jsval obj \<Rightarrow> real" where
  "number_sum ob = sum_list (map (\<lambda>p. num_val (snd p)) ob)"

section \<open>Example inputs\<close>

definition cal_importance :: "real obj" where
  "cal_importance = [(''temperature_2m_max'', 5)]"

definition const_days :: "day list" where
  "const_days = [\<lparr>date = 0, vals = [(''temperature_2m_max'', Num 10)]\<rparr>,
                 \<lparr>date = 86400000, vals = [(''temperature_2m_max'', Num 10)]\<rparr>]"

definition const_store :: store where
  "const_store = (\<lambda>a. \<lparr>variety = None, region = None, duration_days = 2,
                          daily_weather = Some const_days, k_values = None\<rparr>)"

definition narrow_days :: "day list" where
  "narrow_days = [\<lparr>date = 0, vals = [(''temperature_2m_max'', Num 0)]\<rparr>,
                  \<lparr>date = 86400000, vals = [(''temperature_2m_max'', Num (1 / 2))]\<rparr>]"

definition narrow_store :: store where
  "narrow_store = (\<lambda>a. \<lparr>variety = None, region = None, duration_days = 2,
                          daily_weather = Some narrow_days, k_values = None\<rparr>)"

definition scenario_crop :: crop where
  "scenario_crop =
     \<lparr>variety = None, region = None, duration_days = 2,
      daily_weather = Some [\<lparr>date = 0, vals = [(''temperature_2m_max'', Num 10)]\<rparr>,
                            \<lparr>date = 86400000, vals = [(''temperature_2m_max'', Num 12)]\<rparr>],
      k_values = Some [(''temperature_2m_max'', Num 2)]\<rparr>"

definition scenario_forecast :: "day list" where
  "scenario_forecast =
     [\<lparr>date = 0, vals = [(''temperature_2m_max'', Num 10)]\<rparr>,
      \<lparr>date = 86400000, vals = [(''temperature_2m_max'', Num 12)]\<rparr>,
      \<lparr>date = 172800000, vals = [(''temperature_2m_max'', Num 10)]\<rparr>,
      \<lparr>date = 259200000, vals = [(''temperature_2m_max'', Num 12)]\<rparr>]"

text \<open>The scenario with \<open>STEP_SIZE = 1\<close> and the other options left at their defaults.\<close>

definition scenario_config :: client_config where
  "scenario_config = \<lparr>cc_STEP_SIZE = Some 1, cc_MAX_NAN_RATIO = None, cc_DEFAULT_K = None,
     cc_REQUIRED_FIELDS = None\<rparr>"

text \<open>The scenario with the temperature as the only required field.\<close>

definition scenario_config_one :: client_config where
  "scenario_config_one = \<lparr>cc_STEP_SIZE = Some 1, cc_MAX_NAN_RATIO = None, cc_DEFAULT_K = None,
     cc_REQUIRED_FIELDS = Some [''temperature_2m_max'']\<rparr>"

text \<open>The sorted weather of the scenario's crop and the merged configuration of the
  scenario with one required field.\<close>

definition scenario_cropDf :: "day list" where
  "scenario_cropDf = [\<lparr>date = 0, vals = [(''temperature_2m_max'', Num 10)]\<rparr>,
      \<lparr>date = 86400000, vals = [(''temperature_2m_max'', Num 12)]\<rparr>]"

definition cfg_one :: config where
  "cfg_one = \<lparr>STEP_SIZE = 1, MAX_NAN_RATIO = 15 / 100, DEFAULT_K = 2,
      REQUIRED_FIELDS = [''temperature_2m_max'']\<rparr>"

text \<open>A forecast of one day, shorter than the weather of the scenario's crop.\<close>

definition short_forecast :: "day list" where
  "short_forecast = [\<lparr>date = 0, vals = [(''temperature_2m_max'', Num 10)]\<rparr>]"


text \<open>A crop's k values with a k of 0 for the only required field of \<open>cfg_one\<close>.\<close>

definition zero_k :: "jsval obj" where
  "zero_k = [(''temperature_2m_max'', Num 0)]"

text \<open>A crop with one negative k value, a forecast of one day and two required fields.\<close>

definition cfg_two :: config where
  "cfg_two = \<lparr>STEP_SIZE = 1, MAX_NAN_RATIO = 15 / 100, DEFAULT_K = 2,
      REQUIRED_FIELDS = [''temperature_2m_max'', ''temperature_2m_min'']\<rparr>"

definition neg_config :: client_config where
  "neg_config = \<lparr>cc_STEP_SIZE = Some 1, cc_MAX_NAN_RATIO = None, cc_DEFAULT_K = None,
     cc_REQUIRED_FIELDS = Some [''temperature_2m_max'', ''temperature_2m_min'']\<rparr>"

definition neg_k :: "jsval obj" where
  "neg_k = [(''temperature_2m_max'', Num 2), (''temperature_2m_min'', Num (- 1))]"

definition neg_cropDf :: "day list" where
  "neg_cropDf = [\<lparr>date = 0, vals = [(''temperature_2m_max'', Num 1),
                                       (''temperature_2m_min'', Num 1)]\<rparr>]"

definition neg_crop :: crop where
  "neg_crop = \<lparr>variety = None, region = None, duration_days = 1,
      daily_weather = Some neg_cropDf, k_values = Some neg_k\<rparr>"

definition neg_forecast :: "day list" where
  "neg_forecast = [\<lparr>date = 0, vals = [(''temperature_2m_max'', Num 3),
                                         (''temperature_2m_min'', Num 1)]\<rparr>]"

text \<open>The score of the only window of that crop, before rounding.\<close>

definition neg_score :: real where
  "neg_score = 2 * (1 / (1 + exp (max (- 709) (min 709 (- 2 * sqrt (rel_delta (3, 1))))))) - 1 / 2"

lemmas cal_eval = computeCropKValues_def crop_k_values_def const_days_def cal_importance_def
  some_day_has_def has_key_def get_def calculateRange_def range_valid_def normalize_ranges_def
  maxRange_def variationFactor_def const_store_def narrow_days_def narrow_store_def Let_def

section \<open>Calibration: properties\<close>

lemma fold_min_le: "fold min xs (x::real) \<le> x"
proof (induction xs arbitrary: x)
  case Nil
  then show ?case by simp
next
  case (Cons a xs)
  have "fold min xs (min a x) \<le> min a x" by (rule Cons)
  then show ?case by simp
qed

lemma fold_max_ge: "(x::real) \<le> fold max xs x"
proof (induction xs arbitrary: x)
  case Nil
  then show ?case by simp
next
  case (Cons a xs)
  have "max a x \<le> fold max xs (max a x)" by (rule Cons)
  then show ?case by simp
qed

lemma fold_max_ge_elem: "(y::real) \<in> set xs \<Longrightarrow> y \<le> fold max xs x"
proof (induction xs arbitrary: x)
  case Nil
  then show ?case by simp
next
  case (Cons a xs)
  show ?case
  proof (cases "y = a")
    case True
    have "a \<le> max a x" by simp
    also have "\<dots> \<le> fold max xs (max a x)" by (rule fold_max_ge)
    finally show ?thesis using True by simp
  next
    case False
    with Cons show ?thesis by simp
  qed
qed

lemma fold_max_in: "fold max xs (x::real) = x \<or> fold max xs x \<in> set xs"
proof (induction xs arbitrary: x)
  case Nil
  then show ?case by simp
next
  case (Cons a xs)
  from Cons[of "max a x"] show ?case by (auto simp: max_def split: if_splits)
qed

lemma fold_min_const: "\<forall>y\<in>set xs. y = x \<Longrightarrow> fold min xs (x::real) = x"
  by (induction xs) auto

lemma fold_max_const: "\<forall>y\<in>set xs. y = x \<Longrightarrow> fold max xs (x::real) = x"
  by (induction xs) auto

lemma calculateRange_pos: "0 < calculateRange vs"
proof (cases "map num_val (filter range_valid vs)")
  case Nil
  then show ?thesis by (simp add: calculateRange_def)
next
  case (Cons x xs)
  have "fold min xs x \<le> fold max xs x"
    using fold_min_le[of xs x] fold_max_ge[of x xs] by linarith
  then show ?thesis
    using Cons by (auto simp: calculateRange_def Let_def)
qed

lemma calculateRange_constant:
  assumes "\<forall>v\<in>set vs. range_valid v \<longrightarrow> v = Num c"
  shows "calculateRange vs = 1"
proof -
  have all: "\<forall>y\<in>set (map num_val (filter range_valid vs)). y = c"
    using assms by auto
  show ?thesis
  proof (cases "map num_val (filter range_valid vs)")
    case Nil
    then show ?thesis by (simp add: calculateRange_def)
  next
    case (Cons x xs)
    with all have x: "x = c" and xs: "\<forall>y\<in>set xs. y = x" by auto
    show ?thesis
      using Cons fold_min_const[OF xs] fold_max_const[OF xs]
      by (simp add: calculateRange_def Let_def)
  qed
qed

lemma maxRange_ge1: "1 \<le> maxRange rs"
  unfolding maxRange_def by (rule fold_max_ge)

lemma maxRange_ge: "(v, r) \<in> set rs \<Longrightarrow> r \<le> maxRange rs"
  unfolding maxRange_def by (rule fold_max_ge_elem) force

lemma maxRange_cases: "maxRange rs = 1 \<or> maxRange rs \<in> snd ` set rs"
  unfolding maxRange_def using fold_max_in[of "map snd rs" 1] by auto

lemma map_of_raw_ranges:
  "map_of (raw_ranges days bi acc) v =
     (if v \<in> fst ` set bi \<and> some_day_has v days
      then Some (calculateRange (map (\<lambda>d. get (vals d) v) days))
      else map_of acc v)"
  by (induction days bi acc rule: raw_ranges.induct) (auto simp: update_conv' image_iff)

lemma distinct_raw_ranges:
  "distinct (map fst acc) \<Longrightarrow> distinct (map fst (raw_ranges days bi acc))"
  by (induction days bi acc rule: raw_ranges.induct) (auto simp: distinct_update)

lemma raw_ranges_pos:
  "\<forall>(v, r)\<in>set acc. 0 < r \<Longrightarrow> (v, r) \<in> set (raw_ranges days bi acc) \<Longrightarrow> 0 < r"
proof (induction days bi acc rule: raw_ranges.induct)
  case (1 days ranges)
  then show ?case by auto
next
  case (2 days variable imp rest ranges)
  have "\<forall>(v, r)\<in>set (AList.update variable (calculateRange xs) ranges). 0 < r" for xs
    using 2(2) calculateRange_pos[of xs]
    by (induction ranges) (auto split: if_splits)
  with 2 show ?case by (auto split: if_splits)
qed

lemma map_of_normalize_ranges:
  "map_of (normalize_ranges rs) v = map_option (\<lambda>r. r / maxRange rs) (map_of rs v)"
proof -
  have "map_of (map (\<lambda>(variable, r). (variable, r / m)) xs) v = map_option (\<lambda>r. r / m) (map_of xs v)"
    for xs :: "real obj" and m
    by (induction xs) auto
  then show ?thesis by (simp add: normalize_ranges_def)
qed

lemma map_of_k_loop_other:
  "v \<notin> fst ` set bi \<Longrightarrow>
   map_of (fst (k_loop cropName days ranges bi acc)) v = map_of (fst acc) v"
  by (induction cropName days ranges bi acc rule: k_loop.induct)
     (auto simp: update_conv' Let_def split: option.splits)

lemma map_of_k_loop:
  assumes "distinct (map fst bi)" "(v, imp) \<in> set bi"
  shows "map_of (fst (k_loop cropName days ranges bi acc)) v =
     Some (case (if some_day_has v days then map_of ranges v else None) of
             Some r \<Rightarrow> Num (imp * variationFactor r)
           | None \<Rightarrow> if imp = 0 then Null else Num imp)"
  using assms
proof (induction cropName days ranges bi acc rule: k_loop.induct)
  case (1 cropName days ranges acc)
  then show ?case by simp
next
  case (2 cropName days ranges variable imp' rest kDict entries)
  show ?case
  proof (cases "variable = v")
    case True
    with 2(2,3) have notin: "v \<notin> fst ` set rest" and imp: "imp' = imp"
      by (auto simp: image_iff)
    show ?thesis
      using True imp
      by (simp add: map_of_k_loop_other[OF notin] update_conv' Let_def split: option.splits)
  next
    case False
    with 2 show ?thesis by auto
  qed
qed


lemma maxRange_Max: "maxRange rs = Max (insert 1 (snd ` set rs))"
  unfolding maxRange_def using Max.set_eq_fold[of 1 "map snd rs"] by simp

lemma calibrate_loop_weather:
  "daily_weather (cs_store (calibrate_loop crops bi st) a) = daily_weather (cs_store st a)"
  by (induction crops bi st rule: calibrate_loop.induct)
     (auto simp: Let_def split: option.splits prod.splits)

lemma calibrate_loop_k_values:
  assumes "daily_weather (cs_store st a) = Some days" and "days \<noteq> []"
    and "(\<exists>n. (n, a) \<in> set crops) \<or>
         (\<exists>n. k_values (cs_store st a) = Some (fst (crop_k_values n days bi)))"
  shows "\<exists>n. k_values (cs_store (calibrate_loop crops bi st) a) =
               Some (fst (crop_k_values n days bi))"
  using assms
proof (induction crops bi st rule: calibrate_loop.induct)
  case (1 baseImportance st)
  then show ?case by simp
next
  case (2 cropName b rest baseImportance st)
  let ?st' = "(case daily_weather (cs_store st b) of
          None \<Rightarrow> st\<lparr>cs_errors := cs_errors st @ [cropName]\<rparr>
        | Some days \<Rightarrow>
            if days = [] then st\<lparr>cs_errors := cs_errors st @ [cropName]\<rparr>
            else (let (kDict, entries) = crop_k_values cropName days baseImportance
                  in st\<lparr>cs_store := (cs_store st)(b := (cs_store st b)\<lparr>k_values := Some kDict\<rparr>),
                        cs_calibrationLogs := cs_calibrationLogs st @ entries\<rparr>))"
  have w: "daily_weather (cs_store ?st' a) = Some days"
    using 2(2) by (auto simp: Let_def split: option.splits prod.splits)
  have k: "(\<exists>n. (n, a) \<in> set rest) \<or>
         (\<exists>n. k_values (cs_store ?st' a) = Some (fst (crop_k_values n days baseImportance)))"
  proof (cases "b = a")
    case True
    then have "k_values (cs_store ?st' a) = Some (fst (crop_k_values cropName days baseImportance))"
      using 2(2,3) by (auto simp: Let_def split: option.splits prod.splits)
    then show ?thesis by blast
  next
    case False
    then have "k_values (cs_store ?st' a) = k_values (cs_store st a)"
      by (auto simp: Let_def split: option.splits prod.splits)
    with False 2(4) show ?thesis by auto
  qed
  from "2.IH"[OF w 2(3) k] show ?case by simp
qed

text \<open>
  Claim C5, as the code has it. A variable whose valid historical values are all the same
  number has range 1 (not 0) in \<open>calculateRange\<close>. Its normalized range is
  \<open>1 / maxRange\<close>, with \<open>maxRange\<close> the largest range of the crop and at least 1, so
  its variation factor is \<open>1 - 1 / (2 * maxRange)\<close>, which lies in \<open>[1/2, 1)\<close>, and the
  k value that \<open>computeCropKValues\<close> stores in the crop is the base importance times that
  factor.
\<close>

theorem C5_constant_series_k_value:
  assumes "distinct (map fst baseImportance)" and "(variable, imp) \<in> set baseImportance"
    and "(cropName, a) \<in> set crops" and "daily_weather (s a) = Some days"
    and "some_day_has variable days"
    and "\<forall>d\<in>set days. range_valid (get (vals d) variable) \<longrightarrow> get (vals d) variable = Num c"
  shows "\<exists>kDict vf. k_values (snd (snd (snd (computeCropKValues crops baseImportance errs s))) a)
             = Some kDict
           \<and> map_of kDict variable = Some (Num (imp * vf))
           \<and> vf = 1 - 1 / (2 * maxRange (raw_ranges days baseImportance []))
           \<and> 1 / 2 \<le> vf \<and> vf < 1"
proof -
  let ?rs = "raw_ranges days baseImportance []"
  let ?vf = "1 - 1 / (2 * maxRange ?rs)"
  have ne: "days \<noteq> []" using assms(5) by (auto simp: some_day_has_def)
  have v: "variable \<in> fst ` set baseImportance" using assms(2) by force
  have "calculateRange (map (\<lambda>d. get (vals d) variable) days) = 1"
    by (rule calculateRange_constant[where c = c]) (use assms(6) in auto)
  then have raw: "map_of ?rs variable = Some 1"
    using v assms(5) by (simp add: map_of_raw_ranges)
  have norm: "map_of (normalize_ranges ?rs) variable = Some (1 / maxRange ?rs)"
    by (simp add: map_of_normalize_ranges raw)
  have m: "1 \<le> maxRange ?rs" by (rule maxRange_ge1)
  then have "1 / maxRange ?rs \<le> 1" by simp
  then have vf: "variationFactor (1 / maxRange ?rs) = ?vf"
    by (simp add: variationFactor_def max_def)
  have kd: "map_of (fst (crop_k_values n days baseImportance)) variable = Some (Num (imp * ?vf))" for n
    using map_of_k_loop[OF assms(1,2), of n days "normalize_ranges ?rs" "([], [])"]
      assms(5) norm vf
    by (simp add: crop_k_values_def)
  have bounds: "1 / 2 \<le> ?vf \<and> ?vf < 1"
  proof -
    have "0 < 1 / (2 * maxRange ?rs)" using m by simp
    moreover have "1 / (2 * maxRange ?rs) \<le> 1 / 2"
      using m by (simp add: field_simps)
    ultimately show ?thesis by linarith
  qed
  obtain n where "k_values (cs_store (calibrate_loop crops baseImportance
        \<lparr>cs_store = s, cs_calibrationLogs = [], cs_errors = errs\<rparr>) a)
      = Some (fst (crop_k_values n days baseImportance))"
    using calibrate_loop_k_values[of "\<lparr>cs_store = s, cs_calibrationLogs = [], cs_errors = errs\<rparr>"
        a days crops baseImportance] assms(3,4) ne
    by auto
  then have "k_values (snd (snd (snd (computeCropKValues crops baseImportance errs s))) a)
      = Some (fst (crop_k_values n days baseImportance))"
    by (simp add: computeCropKValues_def Let_def)
  with kd bounds show ?thesis by blast
qed

text \<open>The theorem at a crop with two days of temperature 10 and importance 5.\<close>

theorem C5_constant_series_k_value_witness:
  "distinct (map fst cal_importance) \<and> (''temperature_2m_max'', 5) \<in> set cal_importance
   \<and> (''wheat'', 0) \<in> set [(''wheat'', 0 :: nat)] \<and> daily_weather (const_store 0) = Some const_days
   \<and> some_day_has ''temperature_2m_max'' const_days
   \<and> list_all (\<lambda>d. get (vals d) ''temperature_2m_max'' = Num 10) const_days
   \<and> (\<exists>kDict vf. k_values (snd (snd (snd (computeCropKValues [(''wheat'', 0)] cal_importance []
              const_store))) 0) = Some kDict
           \<and> map_of kDict ''temperature_2m_max'' = Some (Num (5 * vf))
           \<and> vf = 1 - 1 / (2 * maxRange (raw_ranges const_days cal_importance []))
           \<and> 1 / 2 \<le> vf \<and> vf < 1)"
proof -
  have h1: "distinct (map fst cal_importance)" by (simp add: cal_importance_def)
  have h2: "(''temperature_2m_max'', 5) \<in> set cal_importance" by (simp add: cal_importance_def)
  have h3: "(''wheat'', 0) \<in> set [(''wheat'', 0 :: nat)]" by simp
  have h4: "daily_weather (const_store 0) = Some const_days" by (simp add: const_store_def)
  have h5: "some_day_has ''temperature_2m_max'' const_days"
    by (simp add: some_day_has_def const_days_def has_key_def)
  have h6: "\<forall>d\<in>set const_days. range_valid (get (vals d) ''temperature_2m_max'') \<longrightarrow>
         get (vals d) ''temperature_2m_max'' = Num 10"
    by (simp add: const_days_def get_def)
  have h7: "list_all (\<lambda>d. get (vals d) ''temperature_2m_max'' = Num 10) const_days"
    by (simp add: const_days_def get_def)
  show ?thesis
    using h1 h2 h3 h4 h5 h6 h7
      C5_constant_series_k_value[where s = const_store and a = 0 and errs = "[]"
        and crops = "[(''wheat'', 0)]" and baseImportance = cal_importance and days = const_days
        and variable = "''temperature_2m_max''" and imp = 5 and c = 10 and cropName = "''wheat''"]
    by simp
qed

text \<open>
  Claim C5 as stated fails: for two days of temperature 10 and base importance 5 the
  variation factor is 1/2 and the k value is 5/2, not 5.
\<close>

theorem C5_counterexample:
  "k_values (snd (snd (snd (computeCropKValues [(''wheat'', 0)] cal_importance [] const_store))) 0)
     = Some [(''temperature_2m_max'', Num (5 / 2))]
   \<and> map ce_variation_factor
        (fst (snd (computeCropKValues [(''wheat'', 0)] cal_importance [] const_store)))
     = [Some (1 / 2)]
   \<and> map_of cal_importance ''temperature_2m_max'' = Some 5"
  by (simp add: cal_eval)

text \<open>
  Claim C6, as the code has it. The divisor \<open>maxRange\<close> is the maximum of 1 and the
  ranges of the crop, so it is 1 whenever no range exceeds 1. Every range is positive and
  every normalized range lies in \<open>(0, 1]\<close>. The variable with the largest range gets
  exactly 1 when that range is at least 1; when no range exceeds 1 the ranges are left
  as they are.
\<close>

theorem C6_range_normalization:
  assumes "(variable, r) \<in> set (raw_ranges days baseImportance [])"
  shows "maxRange (raw_ranges days baseImportance [])
           = Max (insert 1 (snd ` set (raw_ranges days baseImportance [])))
         \<and> map_of (normalize_ranges (raw_ranges days baseImportance [])) variable
           = Some (r / maxRange (raw_ranges days baseImportance []))
         \<and> 0 < r / maxRange (raw_ranges days baseImportance [])
         \<and> r / maxRange (raw_ranges days baseImportance []) \<le> 1
         \<and> (1 \<le> r \<and> (\<forall>p\<in>set (raw_ranges days baseImportance []). snd p \<le> r)
              \<longrightarrow> r / maxRange (raw_ranges days baseImportance []) = 1)
         \<and> ((\<forall>p\<in>set (raw_ranges days baseImportance []). snd p \<le> 1)
              \<longrightarrow> r / maxRange (raw_ranges days baseImportance []) = r)"
proof -
  let ?rs = "raw_ranges days baseImportance []"
  have d: "distinct (map fst ?rs)" by (rule distinct_raw_ranges) simp
  have pos: "0 < r" using raw_ranges_pos[OF _ assms] by simp
  have m1: "1 \<le> maxRange ?rs" by (rule maxRange_ge1)
  have le: "r \<le> maxRange ?rs" by (rule maxRange_ge[OF assms])
  have look: "map_of ?rs variable = Some r" using d assms by simp
  have a: "maxRange ?rs = Max (insert 1 (snd ` set ?rs))" by (rule maxRange_Max)
  have b: "map_of (normalize_ranges ?rs) variable = Some (r / maxRange ?rs)"
    by (simp add: map_of_normalize_ranges look)
  have c: "0 < r / maxRange ?rs" using pos m1 by simp
  have e: "r / maxRange ?rs \<le> 1" using le m1 by simp
  have f: "r / maxRange ?rs = 1" if "1 \<le> r" and "\<forall>p\<in>set ?rs. snd p \<le> r"
  proof -
    from maxRange_cases[of ?rs] have "maxRange ?rs \<le> r"
      using that by auto
    with le have "maxRange ?rs = r" by simp
    with pos show ?thesis by simp
  qed
  have g: "r / maxRange ?rs = r" if "\<forall>p\<in>set ?rs. snd p \<le> 1"
  proof -
    from maxRange_cases[of ?rs] have "maxRange ?rs \<le> 1"
      using that by auto
    with m1 have "maxRange ?rs = 1" by simp
    then show ?thesis by simp
  qed
  from a b c e f g show ?thesis by blast
qed

text \<open>The theorem at a crop whose only variable has range 1/2.\<close>

theorem C6_range_normalization_witness:
  "(''temperature_2m_max'', 1 / 2) \<in> set (raw_ranges narrow_days cal_importance [])
   \<and> maxRange (raw_ranges narrow_days cal_importance [])
           = Max (insert 1 (snd ` set (raw_ranges narrow_days cal_importance [])))
   \<and> map_of (normalize_ranges (raw_ranges narrow_days cal_importance [])) ''temperature_2m_max''
           = Some ((1 / 2) / maxRange (raw_ranges narrow_days cal_importance []))
   \<and> list_all (\<lambda>p. snd p \<le> 1) (raw_ranges narrow_days cal_importance [])
   \<and> (1 / 2) / maxRange (raw_ranges narrow_days cal_importance []) = 1 / 2"
proof -
  have h: "(''temperature_2m_max'', 1 / 2) \<in> set (raw_ranges narrow_days cal_importance [])"
    by (simp add: cal_eval)
  have h2: "\<forall>p\<in>set (raw_ranges narrow_days cal_importance []). snd p \<le> 1"
    by (simp add: cal_eval)
  have h3: "list_all (\<lambda>p. snd p \<le> 1) (raw_ranges narrow_days cal_importance [])"
    by (simp add: cal_eval)
  show ?thesis
    using h h2 h3 C6_range_normalization[OF h] by simp
qed

text \<open>
  Claim C6 as stated fails: the only variable of the crop has range 1/2, the largest of
  the crop and positive, and its normalized range is 1/2, not 1.
\<close>

theorem C6_counterexample:
  "raw_ranges narrow_days cal_importance [] = [(''temperature_2m_max'', 1 / 2)]
   \<and> normalize_ranges (raw_ranges narrow_days cal_importance []) = [(''temperature_2m_max'', 1 / 2)]
   \<and> map ce_range (fst (snd (computeCropKValues [(''wheat'', 0)] cal_importance [] narrow_store)))
       = [Some (1 / 2)]"
  by (simp add: cal_eval)

text \<open>
  Claim C9 on \<open>computeCropKValues\<close>: the crop object of the caller, which had no
  \<open>k_values\<close> before the call, holds the computed k values after it.
\<close>

theorem C9_computeCropKValues_writes_caller_crop:
  "k_values (const_store 0) = None
   \<and> k_values (snd (snd (snd (computeCropKValues [(''wheat'', 0)] cal_importance [] const_store))) 0)
       = Some [(''temperature_2m_max'', Num (5 / 2))]"
  by (simp add: cal_eval)

section \<open>Matching: the loops compute the specified scores and counters\<close>

lemma score_variable_scores:
  "sa_scores (score_variable cfg wd cd kv w n ws v acc) =
     sa_scores acc @ (if produces_score wd cd v
                      then [variable_score cfg wd cd kv v * weight_used cfg w v] else [])"
  by (simp add: score_variable_def produces_score_def variable_score_def weight_used_def
      k_used_def Let_def split: option.splits)

lemma score_variable_totalWeight:
  "sa_totalWeight (score_variable cfg wd cd kv w n ws v acc) =
     sa_totalWeight acc + (if produces_score wd cd v then weight_used cfg w v else 0)"
  by (simp add: score_variable_def produces_score_def weight_used_def Let_def
      split: option.splits)

lemma fold_score_variable_scores:
  "sa_scores (fold (score_variable cfg wd cd kv w n ws) vs acc) =
     sa_scores acc @ map (\<lambda>v. variable_score cfg wd cd kv v * weight_used cfg w v)
                       (filter (produces_score wd cd) vs)"
  by (induction vs arbitrary: acc) (simp_all add: score_variable_scores)

lemma fold_score_variable_totalWeight:
  "sa_totalWeight (fold (score_variable cfg wd cd kv w n ws) vs acc) =
     sa_totalWeight acc + sum_list (map (weight_used cfg w) (filter (produces_score wd cd) vs))"
  by (induction vs arbitrary: acc) (simp_all add: score_variable_totalWeight)

lemma computeScore_score:
  "fst (fst (computeScore cfg wd cd kv w n ws logData)) = window_score cfg wd cd kv w"
  by (simp add: computeScore_def window_score_def Let_def fold_score_variable_scores
      fold_score_variable_totalWeight)

lemma computeScore_summary:
  "ld_summary (snd (computeScore cfg wd cd kv w n ws logData)) = ld_summary logData"
  by (simp add: computeScore_def Let_def)

lemma computeScore_stats:
  "stats_of m (snd (computeScore cfg wd cd kv w n ws logData)) = stats_of m logData"
  by (auto simp: computeScore_def Let_def stats_of_def update_conv' fresh_crop_log_def
      split: option.splits)


lemma stats_of_upd_summary [simp]: "stats_of m (upd_summary f l) = stats_of m l"
  by (simp add: stats_of_def upd_summary_def)

lemma summary_upd_crop_log [simp]: "ld_summary (upd_crop_log n f l) = ld_summary l"
  by (simp add: upd_crop_log_def)

lemma summary_upd_stats [simp]: "ld_summary (upd_stats n f l) = ld_summary l"
  by (simp add: upd_stats_def)

lemma summary_crop_warning [simp]: "ld_summary (crop_warning n w l) = ld_summary l"
  by (simp add: crop_warning_def)

lemma summary_upd_summary [simp]: "ld_summary (upd_summary f l) = f (ld_summary l)"
  by (simp add: upd_summary_def)

lemma stats_of_upd_stats:
  "stats_of m (upd_stats n f l) = (if m = n then map_option f (stats_of n l) else stats_of m l)"
  by (cases "map_of (ld_crop_logs l) n")
     (simp_all add: stats_of_def upd_stats_def upd_crop_log_def map_of_map_entry)

lemma stats_of_upd_crop_log:
  assumes "\<And>cl. cl_windows_stats (f cl) = cl_windows_stats cl"
  shows "stats_of m (upd_crop_log n f l) = stats_of m l"
  by (cases "map_of (ld_crop_logs l) n")
     (simp_all add: stats_of_def upd_crop_log_def map_of_map_entry assms)

lemma stats_of_crop_warning [simp]: "stats_of m (crop_warning n w l) = stats_of m l"
  unfolding crop_warning_def by (rule stats_of_upd_crop_log) simp

lemma window_at_nonempty:
  assumes "cropDf \<noteq> []" and "i + length cropDf \<le> length forecastDf"
  shows "\<exists>ds. window_at forecastDf cropDf i = forecastDf ! i # ds"
proof -
  have "i < length forecastDf" using assms by (cases cropDf) auto
  then have "drop i forecastDf = forecastDf ! i # drop (Suc i) forecastDf"
    by (simp add: Cons_nth_drop_Suc)
  then show ?thesis using assms(1) by (cases cropDf) (auto simp: window_at_def)
qed

lemma window_body_effect:
  assumes "cropDf \<noteq> []" and "i + length cropDf \<le> length forecastDf"
  shows "\<exists>st'. window_body cfg forecastDf cropDf kv w n i st = Inr st'
     \<and> map start_score (ws_cropWindows st') =
         map start_score (ws_cropWindows st) @ reported_windows cfg forecastDf cropDf kv w [i]
     \<and> ld_summary (ws_log st') =
         count_summary 1 (if rejected cfg forecastDf cropDf i then 1 else 0)
           (length (reported_windows cfg forecastDf cropDf kv w [i])) (ld_summary (ws_log st))
     \<and> (\<forall>m. stats_of m (ws_log st') =
          (if m = n
           then map_option (count_stats 1 (if rejected cfg forecastDf cropDf i then 1 else 0)
                  (length (reported_windows cfg forecastDf cropDf kv w [i])))
                  (stats_of n (ws_log st))
           else stats_of m (ws_log st)))"
proof -
  obtain ds where win: "take (length cropDf) (drop i forecastDf) = forecastDf ! i # ds"
    using window_at_nonempty[OF assms] by (auto simp: window_at_def)
  let ?log1 = "upd_stats n (\<lambda>s. s\<lparr>total_windows := total_windows s + 1\<rparr>)
                   (upd_summary (\<lambda>s. s\<lparr>total_windows_processed := total_windows_processed s + 1\<rparr>)
                      (ws_log st))"
  have comp: "map_option f (map_option g x) = map_option (\<lambda>s. f (g s)) x" for f g :: "windows_stats \<Rightarrow> windows_stats" and x
    by (cases x) simp_all
  show ?thesis
  proof (cases "rejected cfg forecastDf cropDf i")
    case True
    then show ?thesis
      using win
      by (auto simp: window_body_def Let_def rejected_def window_at_def reported_windows_def
          scored_window_def count_summary_def count_stats_def[abs_def] stats_of_upd_stats
          stats_of_upd_crop_log comp)
  next
    case False
    then show ?thesis
      using win
      by (auto simp: window_body_def Let_def rejected_def window_at_def reported_windows_def
          scored_window_def count_summary_def count_stats_def[abs_def] stats_of_upd_stats
          stats_of_upd_crop_log comp case_prod_beta computeScore_score computeScore_summary
          computeScore_stats start_score_def
          split: option.splits)
  qed
qed

lemma reported_windows_Cons:
  "reported_windows cfg fdf cdf kv w (i # starts) =
     reported_windows cfg fdf cdf kv w [i] @ reported_windows cfg fdf cdf kv w starts"
  by (simp add: reported_windows_def map_filter_def)

lemma count_summary_comp:
  "count_summary t r k (count_summary t' r' k' s) = count_summary (t' + t) (r' + r) (k' + k) s"
  by (simp add: count_summary_def)

lemma count_stats_comp:
  "map_option (count_stats t r k) (map_option (count_stats t' r' k') x) =
     map_option (count_stats (t' + t) (r' + r) (k' + k)) x"
  by (cases x) (simp_all add: count_stats_def)

lemma count_summary_0: "count_summary 0 0 0 s = s"
  by (simp add: count_summary_def)

lemma count_stats_0: "map_option (count_stats 0 0 0) x = x"
  by (cases x) (simp_all add: count_stats_def)

lemma window_loop_effect:
  assumes "0 < STEP_SIZE cfg" and "cropDf \<noteq> []"
  shows "\<exists>st'. window_loop cfg forecastDf cropDf kv w n i st = Some (Inr st')
     \<and> map start_score (ws_cropWindows st') =
         map start_score (ws_cropWindows st) @
         reported_windows cfg forecastDf cropDf kv w
           (starts_from (STEP_SIZE cfg) (length forecastDf) (length cropDf) i)
     \<and> ld_summary (ws_log st') =
         count_summary
           (length (starts_from (STEP_SIZE cfg) (length forecastDf) (length cropDf) i))
           (length (filter (rejected cfg forecastDf cropDf)
              (starts_from (STEP_SIZE cfg) (length forecastDf) (length cropDf) i)))
           (length (reported_windows cfg forecastDf cropDf kv w
              (starts_from (STEP_SIZE cfg) (length forecastDf) (length cropDf) i)))
           (ld_summary (ws_log st))
     \<and> (\<forall>m. stats_of m (ws_log st') =
          (if m = n
           then map_option (count_stats
                  (length (starts_from (STEP_SIZE cfg) (length forecastDf) (length cropDf) i))
                  (length (filter (rejected cfg forecastDf cropDf)
                     (starts_from (STEP_SIZE cfg) (length forecastDf) (length cropDf) i)))
                  (length (reported_windows cfg forecastDf cropDf kv w
                     (starts_from (STEP_SIZE cfg) (length forecastDf) (length cropDf) i))))
                  (stats_of n (ws_log st))
           else stats_of m (ws_log st)))"
  using assms
proof (induction "STEP_SIZE cfg" "length forecastDf" "length cropDf" i arbitrary: st
    rule: starts_from.induct)
  case (1 i)
  let ?step = "STEP_SIZE cfg" and ?N = "length forecastDf" and ?d = "length cropDf"
  show ?case
  proof (cases "?N < i + ?d")
    case True
    then have "window_loop cfg forecastDf cropDf kv w n i st = Some (Inr st)"
      by (subst window_loop.simps) simp
    moreover have "starts_from ?step ?N ?d i = []"
      using True by (subst starts_from.simps) simp
    ultimately show ?thesis
      by (simp add: reported_windows_def count_summary_0 count_stats_0)
  next
    case False
    then have le: "i + ?d \<le> ?N" by simp
    obtain st1 where body: "window_body cfg forecastDf cropDf kv w n i st = Inr st1"
      and w1: "map start_score (ws_cropWindows st1) =
         map start_score (ws_cropWindows st) @ reported_windows cfg forecastDf cropDf kv w [i]"
      and s1: "ld_summary (ws_log st1) =
         count_summary 1 (if rejected cfg forecastDf cropDf i then 1 else 0)
           (length (reported_windows cfg forecastDf cropDf kv w [i])) (ld_summary (ws_log st))"
      and t1: "\<And>m. stats_of m (ws_log st1) =
          (if m = n
           then map_option (count_stats 1 (if rejected cfg forecastDf cropDf i then 1 else 0)
                  (length (reported_windows cfg forecastDf cropDf kv w [i])))
                  (stats_of n (ws_log st))
           else stats_of m (ws_log st))"
      using window_body_effect[OF "1.prems"(2) le, of cfg kv w n st] by blast
    have step: "\<not> (?step = 0 \<or> ?N < i + ?d)" using False "1.prems"(1) by simp
    from "1.hyps"[OF step "1.prems", of st1]
    obtain st' where loop: "window_loop cfg forecastDf cropDf kv w n (i + ?step) st1 = Some (Inr st')"
      and w2: "map start_score (ws_cropWindows st') =
         map start_score (ws_cropWindows st1) @
         reported_windows cfg forecastDf cropDf kv w (starts_from ?step ?N ?d (i + ?step))"
      and s2: "ld_summary (ws_log st') =
         count_summary (length (starts_from ?step ?N ?d (i + ?step)))
           (length (filter (rejected cfg forecastDf cropDf) (starts_from ?step ?N ?d (i + ?step))))
           (length (reported_windows cfg forecastDf cropDf kv w (starts_from ?step ?N ?d (i + ?step))))
           (ld_summary (ws_log st1))"
      and t2: "\<And>m. stats_of m (ws_log st') =
          (if m = n
           then map_option (count_stats (length (starts_from ?step ?N ?d (i + ?step)))
                  (length (filter (rejected cfg forecastDf cropDf) (starts_from ?step ?N ?d (i + ?step))))
                  (length (reported_windows cfg forecastDf cropDf kv w (starts_from ?step ?N ?d (i + ?step)))))
                  (stats_of n (ws_log st1))
           else stats_of m (ws_log st1))"
      by blast
    have unfold: "starts_from ?step ?N ?d i = i # starts_from ?step ?N ?d (i + ?step)"
      using step by (subst starts_from.simps) simp
    have whole: "window_loop cfg forecastDf cropDf kv w n i st = Some (Inr st')"
      using le body loop by (subst window_loop.simps) simp
    have rw: "reported_windows cfg forecastDf cropDf kv w (starts_from ?step ?N ?d i) =
        reported_windows cfg forecastDf cropDf kv w [i] @
        reported_windows cfg forecastDf cropDf kv w (starts_from ?step ?N ?d (i + ?step))"
      by (subst unfold) (rule reported_windows_Cons)
    have a: "map start_score (ws_cropWindows st') =
         map start_score (ws_cropWindows st) @
         reported_windows cfg forecastDf cropDf kv w (starts_from ?step ?N ?d i)"
      by (simp add: w2 w1 rw)
    have b: "ld_summary (ws_log st') =
         count_summary (length (starts_from ?step ?N ?d i))
           (length (filter (rejected cfg forecastDf cropDf) (starts_from ?step ?N ?d i)))
           (length (reported_windows cfg forecastDf cropDf kv w (starts_from ?step ?N ?d i)))
           (ld_summary (ws_log st))"
      by (simp add: s2 s1 count_summary_comp rw) (simp add: unfold)
    have c: "stats_of m (ws_log st') =
          (if m = n
           then map_option (count_stats (length (starts_from ?step ?N ?d i))
                  (length (filter (rejected cfg forecastDf cropDf) (starts_from ?step ?N ?d i)))
                  (length (reported_windows cfg forecastDf cropDf kv w (starts_from ?step ?N ?d i))))
                  (stats_of n (ws_log st))
           else stats_of m (ws_log st))" for m
      by (simp add: t2 t1 count_stats_comp rw) (simp add: unfold)
    from whole a b c show ?thesis by blast
  qed
qed


lemma map_insort_key:
  "map f (insort_key (\<lambda>x. g (f x)) x ys) = insort_key g (f x) (map f ys)"
  by (induction ys) simp_all

lemma map_sort_key:
  "map f (sort_key (\<lambda>x. g (f x)) xs) = sort_key g (map f xs)"
  by (induction xs) (simp_all add: map_insort_key)

lemma summary_catch_crop [simp]: "ld_summary (catch_crop n l) = ld_summary l"
  by (simp add: catch_crop_def)

lemma summary_init_crop_log [simp]: "ld_summary (init_crop_log n c d l) = ld_summary l"
  by (simp add: init_crop_log_def)

lemma summary_fold_warning [simp]:
  "ld_summary (fold (\<lambda>field l. if P field then crop_warning n (W field) l else l) fs l) =
     ld_summary l"
  by (induction fs arbitrary: l) simp_all

lemma summary_log_weights [simp]: "ld_summary (log_weights cfg dvw kv n l) = ld_summary l"
  by (simp add: log_weights_def Let_def)

lemma process_crop_no_weather:
  assumes "daily_weather c = None"
  shows "\<exists>l'. process_crop cfg fdf dvw (n, c) (results, l) = Some (results, l')
     \<and> ld_summary l' = crop_summary cfg fdf dvw c (ld_summary l)"
  using assms by (simp add: process_crop_def crop_summary_def Let_def)

lemma process_crop_disqualified:
  assumes "daily_weather c = Some dw" and "length fdf < length dw"
  shows "\<exists>l'. process_crop cfg fdf dvw (n, c) (results, l) = Some (results, l')
     \<and> ld_summary l' = crop_summary cfg fdf dvw c (ld_summary l)"
  using assms by (simp add: process_crop_def crop_summary_def Let_def)

lemma window_loop_empty:
  "window_loop cfg fdf [] kv w n 0 st =
     Some (Inl (st\<lparr>ws_log := upd_stats n (\<lambda>s. s\<lparr>total_windows := total_windows s + 1\<rparr>)
                   (upd_summary (\<lambda>s. s\<lparr>total_windows_processed := total_windows_processed s + 1\<rparr>)
                      (ws_log st))\<rparr>))"
  by (subst window_loop.simps) (simp add: window_body_def Let_def)

lemma summary_before_windows [simp]:
  "ld_summary (before_windows cfg dvw n kv l) = ld_summary l"
  by (simp add: before_windows_def Let_def)

lemma process_crop_empty:
  assumes "daily_weather c = Some []"
  shows "\<exists>l'. process_crop cfg fdf dvw (n, c) (results, l) = Some (results, l')
     \<and> ld_summary l' = crop_summary cfg fdf dvw c (ld_summary l)"
  using assms by (simp add: process_crop_def crop_summary_def Let_def window_loop_empty)

lemma has_log_init: "has_log n (init_crop_log n c d l)"
  by (simp add: has_log_def init_crop_log_def update_conv')

lemma has_log_upd_crop_log [simp]: "has_log m (upd_crop_log n f l) = has_log m l"
  by (simp add: has_log_def upd_crop_log_def map_of_map_entry split: option.splits)

lemma has_log_crop_warning [simp]: "has_log m (crop_warning n w l) = has_log m l"
  by (simp add: crop_warning_def)

lemma has_log_fold_warning [simp]:
  "has_log m (fold (\<lambda>field l. if P field then crop_warning n (W field) l else l) fs l) =
     has_log m l"
  by (induction fs arbitrary: l) simp_all

lemma has_log_log_weights [simp]: "has_log m (log_weights cfg dvw kv n l) = has_log m l"
  by (simp add: log_weights_def Let_def)

lemma stats_before_windows:
  assumes "has_log n l"
  shows "stats_of n (before_windows cfg dvw n kv l) =
           Some \<lparr>total_windows = 0, insufficient_data = 0, valid_windows = 0\<rparr>"
proof -
  let ?l4 = "log_weights cfg dvw kv n
      (upd_crop_log n (\<lambda>cl. cl\<lparr>cl_k_values_used := Some kv\<rparr>)
         (if kv = [] then crop_warning n NoKValuesFound l else l))"
  have "has_log n ?l4" using assms by simp
  then obtain cl where "map_of (ld_crop_logs ?l4) n = Some cl"
    unfolding has_log_def by blast
  then show ?thesis
    by (simp add: before_windows_def Let_def stats_of_def upd_crop_log_def map_of_map_entry)
qed

lemma process_crop_windows:
  assumes "0 < STEP_SIZE cfg" and "daily_weather c = Some dw" and "dw \<noteq> []"
    and "length dw \<le> length fdf"
  shows "\<exists>results' l'. process_crop cfg fdf dvw (n, c) (results, l) = Some (results', l')
     \<and> map reported_crop results' = map reported_crop results @
         (if crop_reported cfg fdf dvw c = [] then []
          else [(n, sort_key (\<lambda>p. - snd p) (crop_reported cfg fdf dvw c))])
     \<and> ld_summary l' = crop_summary cfg fdf dvw c (ld_summary l)
     \<and> stats_of n l' = Some
          \<lparr>total_windows = length (crop_starts cfg fdf (length dw)),
           insufficient_data = length (filter (rejected cfg fdf (sort_key date dw))
                                  (crop_starts cfg fdf (length dw))),
           valid_windows = length (crop_reported cfg fdf dvw c)\<rparr>"
proof -
  let ?cdf = "sort_key date dw" and ?kv = "crop_kValues c"
  let ?w = "variable_weights cfg dvw ?kv"
  let ?l1 = "init_crop_log n c (length ?cdf)
               (upd_summary (\<lambda>s. s\<lparr>crops_processed := crops_processed s + 1\<rparr>) l)"
  let ?st0 = "\<lparr>ws_log = before_windows cfg dvw n ?kv ?l1, ws_cropWindows = []\<rparr>"
  let ?starts = "crop_starts cfg fdf (length dw)"
  have ne: "?cdf \<noteq> []" using assms(3) by (cases dw) simp_all
  have rep: "crop_reported cfg fdf dvw c = reported_windows cfg fdf ?cdf ?kv ?w ?starts"
    using assms by (simp add: crop_reported_def)
  obtain st where loop: "window_loop cfg fdf ?cdf ?kv ?w n 0 ?st0 = Some (Inr st)"
    and wins: "map start_score (ws_cropWindows st) = crop_reported cfg fdf dvw c"
    and summ: "ld_summary (ws_log st) =
         count_summary (length ?starts) (length (filter (rejected cfg fdf ?cdf) ?starts))
           (length (crop_reported cfg fdf dvw c)) (ld_summary (ws_log ?st0))"
    and stats: "stats_of n (ws_log st) =
         map_option (count_stats (length ?starts) (length (filter (rejected cfg fdf ?cdf) ?starts))
           (length (crop_reported cfg fdf dvw c))) (stats_of n (ws_log ?st0))"
    using window_loop_effect[OF assms(1) ne, of fdf ?kv ?w n 0 ?st0]
    by (auto simp: rep crop_starts_def)
  have st0: "stats_of n (ws_log ?st0) =
      Some \<lparr>total_windows = 0, insufficient_data = 0, valid_windows = 0\<rparr>"
    using stats_before_windows[OF has_log_init] by simp
  have empty: "ws_cropWindows st = [] \<longleftrightarrow> crop_reported cfg fdf dvw c = []"
    using wins by (metis map_is_Nil_conv)
  have pc: "process_crop cfg fdf dvw (n, c) (results, l) =
      Some (after_windows n c (length ?cdf) ?kv results st)"
    using assms(2,4) loop by (simp add: process_crop_def Let_def)
  have sortw: "map start_score (sort_key (\<lambda>w. - wr_score w) (ws_cropWindows st)) =
      sort_key (\<lambda>p. - snd p) (crop_reported cfg fdf dvw c)"
    using map_sort_key[of start_score "\<lambda>p. - snd p" "ws_cropWindows st"]
    by (simp add: start_score_def wins[symmetric])
  show ?thesis
    unfolding pc
    using empty sortw summ stats st0 assms(2,3,4)
    by (auto simp: after_windows_def Let_def reported_crop_def crop_summary_def
        stats_of_upd_crop_log count_stats_def)
qed

lemma crop_reported_None: "daily_weather c = None \<Longrightarrow> crop_reported cfg fdf dvw c = []"
  by (simp add: crop_reported_def)

lemma crop_reported_too_long:
  "daily_weather c = Some dw \<Longrightarrow> length fdf < length dw \<Longrightarrow> crop_reported cfg fdf dvw c = []"
  by (simp add: crop_reported_def)

lemma crop_reported_empty: "daily_weather c = Some [] \<Longrightarrow> crop_reported cfg fdf dvw c = []"
  by (simp add: crop_reported_def)

lemma process_crop_total:
  assumes "0 < STEP_SIZE cfg"
  shows "\<exists>results' l'. process_crop cfg fdf dvw (n, c) (results, l) = Some (results', l')
     \<and> map reported_crop results' = map reported_crop results @
         (if crop_reported cfg fdf dvw c = [] then []
          else [(n, sort_key (\<lambda>p. - snd p) (crop_reported cfg fdf dvw c))])
     \<and> ld_summary l' = crop_summary cfg fdf dvw c (ld_summary l)"
proof (cases "daily_weather c")
  case None
  then show ?thesis
    using process_crop_no_weather[OF None, of cfg fdf dvw n results l]
    by (auto simp: crop_reported_None)
next
  case (Some dw)
  consider "length fdf < length dw" | "dw = []" | "dw \<noteq> []" "length dw \<le> length fdf"
    by fastforce
  then show ?thesis
  proof cases
    case 1
    then show ?thesis
      using process_crop_disqualified[OF Some 1, of cfg dvw n results l]
      by (auto simp: crop_reported_too_long[OF Some 1])
  next
    case 2
    then show ?thesis
      using process_crop_empty[of c cfg fdf dvw n results l] Some
      by (auto simp: crop_reported_empty)
  next
    case 3
    then show ?thesis
      using process_crop_windows[OF assms Some 3, of dvw n results l] by blast
  qed
qed

lemma crop_loop_effect:
  assumes "0 < STEP_SIZE cfg"
  shows "\<exists>results' l'. crop_loop cfg fdf dvw crops (results, l) = Some (results', l')
     \<and> map reported_crop results' = map reported_crop results @ run_reported cfg fdf dvw crops
     \<and> ld_summary l' = run_summary cfg fdf dvw crops (ld_summary l)"
proof (induction crops arbitrary: results l)
  case Nil
  then show ?case by (simp add: run_reported_def run_summary_def)
next
  case (Cons nc crops)
  obtain n c where nc: "nc = (n, c)" by (cases nc)
  obtain r1 l1 where p: "process_crop cfg fdf dvw (n, c) (results, l) = Some (r1, l1)"
    and pr: "map reported_crop r1 = map reported_crop results @
         (if crop_reported cfg fdf dvw c = [] then []
          else [(n, sort_key (\<lambda>p. - snd p) (crop_reported cfg fdf dvw c))])"
    and ps: "ld_summary l1 = crop_summary cfg fdf dvw c (ld_summary l)"
    using process_crop_total[OF assms, of fdf dvw n c results l] by blast
  obtain r2 l2 where q: "crop_loop cfg fdf dvw crops (r1, l1) = Some (r2, l2)"
    and qr: "map reported_crop r2 = map reported_crop r1 @ run_reported cfg fdf dvw crops"
    and qs: "ld_summary l2 = run_summary cfg fdf dvw crops (ld_summary l1)"
    using Cons[of r1 l1] by blast
  have "crop_loop cfg fdf dvw (nc # crops) (results, l) = Some (r2, l2)"
    using p q nc by simp
  moreover have "map reported_crop r2 =
      map reported_crop results @ run_reported cfg fdf dvw (nc # crops)"
    using qr pr nc by (simp add: run_reported_def)
  moreover have "ld_summary l2 = run_summary cfg fdf dvw (nc # crops) (ld_summary l)"
    using qs ps nc by (simp add: run_summary_def)
  ultimately show ?case by blast
qed

lemma runCropMatching_effect:
  assumes "0 < STEP_SIZE (merge_config cc)"
  shows "\<exists>results logs. runCropMatching crops forecastData cc = Some (results, logs)
     \<and> map reported_crop results =
         run_reported (merge_config cc) (sort_key date forecastData)
           (default_variable_weights (merge_config cc)) crops
     \<and> ld_summary logs =
         run_summary (merge_config cc) (sort_key date forecastData)
           (default_variable_weights (merge_config cc)) crops (ld_summary initial_log)"
  using crop_loop_effect[OF assms, of "sort_key date forecastData"
      "default_variable_weights (merge_config cc)" crops "[]" initial_log]
  by (simp add: runCropMatching_def Let_def)

lemma run_summary_disqualified:
  "crops_disqualified_duration (run_summary cfg fdf dvw crops s) =
     crops_disqualified_duration s + length (filter (\<lambda>nc. too_long fdf (snd nc)) crops)"
proof (induction crops arbitrary: s)
  case Nil
  then show ?case by (simp add: run_summary_def)
next
  case (Cons nc crops)
  have "crops_disqualified_duration (crop_summary cfg fdf dvw (snd nc) s) =
      crops_disqualified_duration s + (if too_long fdf (snd nc) then 1 else 0)"
    by (simp add: crop_summary_def too_long_def Let_def count_summary_def split: option.splits)
  with Cons[of "crop_summary cfg fdf dvw (snd nc) s"] show ?case
    by (simp add: run_summary_def)
qed

section \<open>The end-to-end scenario\<close>

lemma logisticScore_exact: "logisticScore [rel_delta (x, x)] k = [1 / 2]"
  by (simp add: logisticScore_def safeExp_def rel_delta_def)

lemma round4_half: "round4 (1 / 2) = 1 / 2"
  by (simp add: round4_def)

lemmas scenario_eval = scenario_crop_def scenario_forecast_def scenario_config_def
  scenario_config_one_def merge_config_def DEFAULT_CONFIG_def default_variable_weights_def
  crop_reported_def crop_starts_def starts_from.simps reported_windows_def rejected_def
  window_at_def insufficient_def validValues_def gate_valid_def has_key_def get_def
  crop_kValues_def variable_weights_def valid_k_values_def normalized_weights_def kSum_def
  Let_def

lemma scenario_default_rejected:
  "crop_reported (merge_config scenario_config) (sort_key date scenario_forecast)
     (default_variable_weights (merge_config scenario_config)) scenario_crop = []"
  by (simp add: scenario_eval)

lemma merge_scenario_one: "merge_config scenario_config_one = cfg_one"
  by (simp add: merge_config_def scenario_config_one_def DEFAULT_CONFIG_def cfg_one_def)

lemma scenario_sorted: "sort_key date scenario_forecast = scenario_forecast"
  by (simp add: scenario_forecast_def)

lemma scenario_weather: "daily_weather scenario_crop = Some scenario_cropDf"
  by (simp add: scenario_crop_def scenario_cropDf_def)

lemma scenario_cropDf_sorted: "sort_key date scenario_cropDf = scenario_cropDf"
  by (simp add: scenario_cropDf_def)

lemma scenario_lengths: "length scenario_cropDf = 2" "length scenario_forecast = 4"
  "scenario_cropDf \<noteq> []"
  by (simp_all add: scenario_cropDf_def scenario_forecast_def)

lemma scenario_kValues: "crop_kValues scenario_crop = [(''temperature_2m_max'', Num 2)]"
  by (simp add: crop_kValues_def scenario_crop_def)

lemma scenario_one_weights:
  "variable_weights cfg_one dvw [(''temperature_2m_max'', Num 2)]
   = [(''temperature_2m_max'', Num 1)]"
  by (simp add: variable_weights_def valid_k_values_def normalized_weights_def kSum_def
      has_key_def get_def cfg_one_def)

lemma scenario_one_starts: "crop_starts cfg_one scenario_forecast 2 = [0, Suc 0, 2]"
  by (simp add: crop_starts_def starts_from.simps scenario_lengths cfg_one_def)

lemma scenario_window_at:
  "window_at scenario_forecast scenario_cropDf 0 =
     [\<lparr>date = 0, vals = [(''temperature_2m_max'', Num 10)]\<rparr>,
      \<lparr>date = 86400000, vals = [(''temperature_2m_max'', Num 12)]\<rparr>]"
  "window_at scenario_forecast scenario_cropDf (Suc 0) =
     [\<lparr>date = 86400000, vals = [(''temperature_2m_max'', Num 12)]\<rparr>,
      \<lparr>date = 172800000, vals = [(''temperature_2m_max'', Num 10)]\<rparr>]"
  "window_at scenario_forecast scenario_cropDf 2 =
     [\<lparr>date = 172800000, vals = [(''temperature_2m_max'', Num 10)]\<rparr>,
      \<lparr>date = 259200000, vals = [(''temperature_2m_max'', Num 12)]\<rparr>]"
  by (simp_all add: window_at_def scenario_lengths) (simp_all add: scenario_forecast_def)

lemma scenario_one_not_rejected:
  "\<not> rejected cfg_one scenario_forecast scenario_cropDf 0"
  "\<not> rejected cfg_one scenario_forecast scenario_cropDf (Suc 0)"
  "\<not> rejected cfg_one scenario_forecast scenario_cropDf 2"
  by (simp_all add: rejected_def scenario_window_at scenario_lengths insufficient_def
      validValues_def gate_valid_def has_key_def get_def cfg_one_def)

lemma scenario_one_produces:
  "produces_score [\<lparr>date = a, vals = [(''temperature_2m_max'', Num x)]\<rparr>,
                   \<lparr>date = b, vals = [(''temperature_2m_max'', Num y)]\<rparr>]
     scenario_cropDf ''temperature_2m_max''"
  by (simp add: produces_score_def every_day_has_def has_key_def get_def valid_pairs_def
      elem_at_def pair_ok_def scenario_cropDf_def upt_rec)

lemma scenario_one_window_score:
  "window_score cfg_one [\<lparr>date = a, vals = [(''temperature_2m_max'', Num x)]\<rparr>,
                         \<lparr>date = b, vals = [(''temperature_2m_max'', Num y)]\<rparr>]
     scenario_cropDf kv [(''temperature_2m_max'', Num 1)]
   = Some (variable_score cfg_one [\<lparr>date = a, vals = [(''temperature_2m_max'', Num x)]\<rparr>,
                                   \<lparr>date = b, vals = [(''temperature_2m_max'', Num y)]\<rparr>]
             scenario_cropDf kv ''temperature_2m_max'')"
  by (simp add: window_score_def scenario_one_produces weight_used_def get_def cfg_one_def)

lemma scenario_exact_variable_score:
  "variable_score cfg_one [\<lparr>date = a, vals = [(''temperature_2m_max'', Num 10)]\<rparr>,
                           \<lparr>date = b, vals = [(''temperature_2m_max'', Num 12)]\<rparr>]
     scenario_cropDf kv ''temperature_2m_max'' = 1 / 2"
  by (simp add: variable_score_def get_def valid_pairs_def elem_at_def pair_ok_def
      scenario_cropDf_def upt_rec logisticScore_def safeExp_def rel_delta_def)

lemma scenario_one_reported:
  "crop_reported cfg_one scenario_forecast dvw scenario_crop
   = [(0, 1 / 2),
      (1, round4 (variable_score cfg_one (window_at scenario_forecast scenario_cropDf (Suc 0))
                    scenario_cropDf [(''temperature_2m_max'', Num 2)] ''temperature_2m_max'')),
      (2, 1 / 2)]"
proof -
  have r: "crop_reported cfg_one scenario_forecast dvw scenario_crop =
      List.map_filter (scored_window cfg_one scenario_forecast scenario_cropDf
          [(''temperature_2m_max'', Num 2)] [(''temperature_2m_max'', Num 1)]) [0, Suc 0, 2]"
    by (simp add: crop_reported_def scenario_weather scenario_cropDf_sorted scenario_lengths
        scenario_kValues scenario_one_weights scenario_one_starts reported_windows_def
        scenario_one_not_rejected del: map_filter_simps)
  have d: "date (scenario_forecast ! 0) = 0" "date (scenario_forecast ! Suc 0) = 86400000"
    "date (scenario_forecast ! 2) = 172800000"
    by (simp_all add: scenario_forecast_def)
  have s0: "scored_window cfg_one scenario_forecast scenario_cropDf
          [(''temperature_2m_max'', Num 2)] [(''temperature_2m_max'', Num 1)] 0 = Some (0, 1 / 2)"
    by (simp add: scored_window_def scenario_window_at scenario_one_window_score
        scenario_exact_variable_score round4_half d iso_day_def)
  have s2: "scored_window cfg_one scenario_forecast scenario_cropDf
          [(''temperature_2m_max'', Num 2)] [(''temperature_2m_max'', Num 1)] 2 = Some (2, 1 / 2)"
    by (simp add: scored_window_def scenario_window_at scenario_one_window_score
        scenario_exact_variable_score round4_half d iso_day_def)
  have s1: "scored_window cfg_one scenario_forecast scenario_cropDf
          [(''temperature_2m_max'', Num 2)] [(''temperature_2m_max'', Num 1)] (Suc 0) =
      Some (1, round4 (variable_score cfg_one (window_at scenario_forecast scenario_cropDf (Suc 0))
                    scenario_cropDf [(''temperature_2m_max'', Num 2)] ''temperature_2m_max''))"
    by (simp add: scored_window_def scenario_window_at scenario_one_window_score d iso_day_def)
  show ?thesis
    unfolding r by (simp add: s0 s1 s2)
qed

lemma scenario_default_reported:
  "crop_reported (merge_config scenario_config) scenario_forecast dvw scenario_crop = []"
  by (simp add: scenario_eval)

text \<open>
  Claim C8, as the code has it. A pair whose forecast equals the historical value has
  relative delta 0 and logistic score exactly 1/2, for every k. In the scenario of the
  specification with the temperature as the only required field, the call returns one
  crop with three windows, and the windows that start on day 0 and on day 2 have score
  1/2.
\<close>

theorem C8_exact_match_scenario:
  "logisticScore [rel_delta (x, x)] k = [1 / 2]
   \<and> (\<exists>results logs ws.
         runCropMatching [(''crop'', scenario_crop)] scenario_forecast scenario_config_one
           = Some (results, logs)
         \<and> map reported_crop results = [(''crop'', ws)]
         \<and> length ws = 3 \<and> (0, 1 / 2) \<in> set ws \<and> (2, 1 / 2) \<in> set ws)"
proof -
  have step: "0 < STEP_SIZE (merge_config scenario_config_one)"
    by (simp add: merge_scenario_one cfg_one_def)
  obtain results logs where
    run: "runCropMatching [(''crop'', scenario_crop)] scenario_forecast scenario_config_one
           = Some (results, logs)"
    and rep: "map reported_crop results =
         run_reported (merge_config scenario_config_one) (sort_key date scenario_forecast)
           (default_variable_weights (merge_config scenario_config_one))
           [(''crop'', scenario_crop)]"
    using runCropMatching_effect[OF step] by blast
  let ?ws = "sort_key (\<lambda>p. - snd p)
      (crop_reported cfg_one scenario_forecast (default_variable_weights cfg_one) scenario_crop)"
  have a: "map reported_crop results = [(''crop'', ?ws)]"
    unfolding rep
    by (simp add: run_reported_def merge_scenario_one scenario_sorted scenario_one_reported)
  have b: "length ?ws = 3" by (simp add: scenario_one_reported)
  have "set ?ws = set (crop_reported cfg_one scenario_forecast
      (default_variable_weights cfg_one) scenario_crop)"
    by (rule set_sort)
  then have c: "(0, 1 / 2) \<in> set ?ws" and d: "(2, 1 / 2) \<in> set ?ws"
    by (simp_all add: scenario_one_reported)
  show ?thesis
    by (intro conjI exI[of _ results] exI[of _ logs] exI[of _ ?ws])
       (rule logisticScore_exact run a b c d)+
qed

text \<open>
  Claim C8 as stated fails: with \<open>STEP_SIZE = 1\<close> and every other option at its default
  the six default fields are required, every window of the scenario has one valid value
  in six, the completeness gate rejects all three windows and the results are empty.
\<close>

theorem C8_counterexample:
  "map_option fst
     (runCropMatching [(''crop'', scenario_crop)] scenario_forecast scenario_config) = Some []"
proof -
  have step: "0 < STEP_SIZE (merge_config scenario_config)"
    by (simp add: merge_config_def scenario_config_def)
  obtain results logs where
    run: "runCropMatching [(''crop'', scenario_crop)] scenario_forecast scenario_config
           = Some (results, logs)"
    and rep: "map reported_crop results =
         run_reported (merge_config scenario_config) (sort_key date scenario_forecast)
           (default_variable_weights (merge_config scenario_config))
           [(''crop'', scenario_crop)]"
    using runCropMatching_effect[OF step] by blast
  have "map reported_crop results = []"
    unfolding rep by (simp add: run_reported_def scenario_sorted scenario_default_reported)
  then show ?thesis using run by simp
qed

section \<open>Disqualified crops and the completeness gate\<close>

lemma run_summary_no_valid:
  "crops_no_valid_windows (run_summary cfg fdf dvw crops s) =
     crops_no_valid_windows s + length (filter (\<lambda>nc. without_windows cfg fdf dvw (snd nc)) crops)"
proof (induction crops arbitrary: s)
  case Nil
  then show ?case by (simp add: run_summary_def)
next
  case (Cons nc crops)
  have "crops_no_valid_windows (crop_summary cfg fdf dvw (snd nc) s) =
      crops_no_valid_windows s + (if without_windows cfg fdf dvw (snd nc) then 1 else 0)"
    by (simp add: crop_summary_def without_windows_def Let_def count_summary_def
        split: option.splits)
  with Cons[of "crop_summary cfg fdf dvw (snd nc) s"] show ?case
    by (simp add: run_summary_def)
qed




text \<open>
  Claim C4. A crop with more days of weather than the forecast has days leaves the results
  as they are and changes two counters of the summary only, \<open>crops_processed\<close> and
  \<open>crops_disqualified_duration\<close>: no window is counted for it. Over a whole run (with a
  positive step) \<open>crops_disqualified_duration\<close> is the number of such crops,
  \<open>crops_no_valid_windows\<close> counts crops of the other kind only, and when the crop
  names are distinct no result carries the name of such a crop.
\<close>

theorem C4_disqualified_by_duration:
  assumes "daily_weather c = Some dw" and "length forecastData < length dw"
  shows "(\<exists>l'. process_crop cfg (sort_key date forecastData) dvw (n, c) (results, l)
                 = Some (results, l')
              \<and> ld_summary l' = (ld_summary l)
                   \<lparr>crops_processed := crops_processed (ld_summary l) + 1,
                    crops_disqualified_duration :=
                      crops_disqualified_duration (ld_summary l) + 1\<rparr>)
         \<and> (0 < STEP_SIZE (merge_config cc) \<and> (n, c) \<in> set crops \<longrightarrow>
              (\<exists>rs logs. runCropMatching crops forecastData cc = Some (rs, logs)
                 \<and> crops_disqualified_duration (ld_summary logs) =
                     length (filter (\<lambda>nc. too_long (sort_key date forecastData) (snd nc)) crops)
                 \<and> too_long (sort_key date forecastData) c
                 \<and> crops_no_valid_windows (ld_summary logs) =
                     length (filter (\<lambda>nc. without_windows (merge_config cc)
                        (sort_key date forecastData)
                        (default_variable_weights (merge_config cc)) (snd nc)) crops)
                 \<and> \<not> without_windows (merge_config cc) (sort_key date forecastData)
                        (default_variable_weights (merge_config cc)) c
                 \<and> (distinct (map fst crops) \<longrightarrow> n \<notin> cr_name ` set rs)))"
proof -
  let ?fdf = "sort_key date forecastData"
  have len: "length ?fdf < length dw" using assms(2) by simp
  have step: "\<exists>l'. process_crop cfg ?fdf dvw (n, c) (results, l) = Some (results, l')
              \<and> ld_summary l' = (ld_summary l)
                   \<lparr>crops_processed := crops_processed (ld_summary l) + 1,
                    crops_disqualified_duration :=
                      crops_disqualified_duration (ld_summary l) + 1\<rparr>"
    using process_crop_disqualified[OF assms(1) len, of cfg dvw n results l] assms(1) len
    by (auto simp: crop_summary_def Let_def)
  have run: "\<exists>rs logs. runCropMatching crops forecastData cc = Some (rs, logs)
                 \<and> crops_disqualified_duration (ld_summary logs) =
                     length (filter (\<lambda>nc. too_long ?fdf (snd nc)) crops)
                 \<and> too_long ?fdf c
                 \<and> crops_no_valid_windows (ld_summary logs) =
                     length (filter (\<lambda>nc. without_windows (merge_config cc) ?fdf
                        (default_variable_weights (merge_config cc)) (snd nc)) crops)
                 \<and> \<not> without_windows (merge_config cc) ?fdf
                        (default_variable_weights (merge_config cc)) c
                 \<and> (distinct (map fst crops) \<longrightarrow> n \<notin> cr_name ` set rs)"
    if pos: "0 < STEP_SIZE (merge_config cc)" and mem: "(n, c) \<in> set crops"
  proof -
    let ?cfg = "merge_config cc" and ?dvw = "default_variable_weights (merge_config cc)"
    obtain rs logs where r: "runCropMatching crops forecastData cc = Some (rs, logs)"
      and rep: "map reported_crop rs = run_reported ?cfg ?fdf ?dvw crops"
      and summ: "ld_summary logs = run_summary ?cfg ?fdf ?dvw crops (ld_summary initial_log)"
      using runCropMatching_effect[OF pos] by blast
    have a: "crops_disqualified_duration (ld_summary logs) =
        length (filter (\<lambda>nc. too_long ?fdf (snd nc)) crops)"
      by (simp add: summ run_summary_disqualified initial_log_def)
    have b: "too_long ?fdf c" using assms(1) len by (simp add: too_long_def)
    have c: "crops_no_valid_windows (ld_summary logs) =
        length (filter (\<lambda>nc. without_windows ?cfg ?fdf ?dvw (snd nc)) crops)"
      by (simp add: summ run_summary_no_valid initial_log_def)
    have d: "\<not> without_windows ?cfg ?fdf ?dvw c"
      using assms(1) len by (simp add: without_windows_def)
    have e: "n \<notin> cr_name ` set rs" if dist: "distinct (map fst crops)"
    proof
      assume "n \<in> cr_name ` set rs"
      then have "n \<in> fst ` set (map reported_crop rs)"
        by (force simp: reported_crop_def)
      then obtain c' where c': "(n, c') \<in> set crops"
        and ne: "crop_reported ?cfg ?fdf ?dvw c' \<noteq> []"
        unfolding rep run_reported_def by force
      from dist mem c' have "c' = c"
        by (meson eq_key_imp_eq_value)
      with ne crop_reported_too_long[OF assms(1) len] show False by simp
    qed
    from r a b c d e show ?thesis by blast
  qed
  from step run show ?thesis by blast
qed


text \<open>The theorem at the scenario's crop (two days) and a forecast of one day.\<close>

theorem C4_disqualified_by_duration_witness:
  "daily_weather scenario_crop = Some scenario_cropDf
   \<and> length short_forecast < length scenario_cropDf
   \<and> 0 < STEP_SIZE (merge_config scenario_config)
   \<and> (\<exists>rs logs. runCropMatching [(''crop'', scenario_crop)] short_forecast scenario_config
                    = Some (rs, logs)
         \<and> crops_disqualified_duration (ld_summary logs) = 1
         \<and> crops_no_valid_windows (ld_summary logs) = 0
         \<and> ''crop'' \<notin> cr_name ` set rs)"
proof -
  have h1: "daily_weather scenario_crop = Some scenario_cropDf" by (rule scenario_weather)
  have h2: "length short_forecast < length scenario_cropDf"
    by (simp add: short_forecast_def scenario_cropDf_def)
  have h3: "0 < STEP_SIZE (merge_config scenario_config)"
    by (simp add: merge_config_def scenario_config_def)
  have h4: "(''crop'', scenario_crop) \<in> set [(''crop'', scenario_crop)]" by simp
  have h5: "too_long (sort_key date short_forecast) scenario_crop"
    using h1 h2 by (simp add: too_long_def)
  have h6: "\<not> without_windows cfg (sort_key date short_forecast) dvw scenario_crop" for cfg dvw
    using h1 h2 by (simp add: without_windows_def)
  show ?thesis
    using h1 h2 h3 h5 h6
      C4_disqualified_by_duration[OF h1 h2, where cc = scenario_config
        and crops = "[(''crop'', scenario_crop)]" and n = "''crop''"]
    by auto
qed




section \<open>The weights of a crop\<close>

lemma update_fresh: "k \<notin> fst ` set al \<Longrightarrow> AList.update k v al = al @ [(k, v)]"
  by (induction al) auto

lemma fold_update_fresh:
  "distinct ks \<Longrightarrow> set ks \<inter> fst ` set acc = {} \<Longrightarrow>
   fold (\<lambda>f w. AList.update f (g f) w) ks acc = acc @ map (\<lambda>f. (f, g f)) ks"
proof (induction ks arbitrary: acc)
  case Nil
  then show ?case by simp
next
  case (Cons k ks)
  have fresh: "k \<notin> fst ` set acc" using Cons.prems(2) by auto
  have "set ks \<inter> fst ` set (acc @ [(k, g k)]) = {}"
    using Cons.prems by auto
  with Cons.IH[of "acc @ [(k, g k)]"] Cons.prems(1) show ?case
    by (simp add: update_fresh[OF fresh])
qed

lemma map_of_fold_update_cond:
  "map_of (fold (\<lambda>f vk. if P f then AList.update f (g f) vk else vk) fs acc) v =
     (if v \<in> set fs \<and> P v then Some (g v) else map_of acc v)"
  by (induction fs arbitrary: acc) (auto simp: update_conv')

lemma distinct_fold_update_cond:
  "distinct (map fst acc) \<Longrightarrow>
   distinct (map fst (fold (\<lambda>f vk. if P f then AList.update f (g f) vk else vk) fs acc))"
  by (induction fs arbitrary: acc) (auto simp: distinct_update)

lemma map_of_valid_k_values:
  "map_of (valid_k_values cfg kv) f =
     (if f \<in> set (REQUIRED_FIELDS cfg) \<and> has_key f kv \<and> get kv f \<noteq> Null
      then Some (get kv f) else None)"
  unfolding valid_k_values_def by (simp add: map_of_fold_update_cond)

lemma distinct_valid_k_values: "distinct (map fst (valid_k_values cfg kv))"
  unfolding valid_k_values_def by (rule distinct_fold_update_cond) simp

lemma get_distinct: "distinct (map fst ob) \<Longrightarrow> p \<in> set ob \<Longrightarrow> get ob (fst p) = snd p"
  by (cases p) (simp add: get_def)

lemma normalized_weights_map:
  assumes "distinct (map fst vk)"
  shows "normalized_weights vk = map (\<lambda>p. (fst p, js_div (snd p) (kSum vk))) vk"
proof -
  have "normalized_weights vk =
      map (\<lambda>f. (f, js_div (get vk f) (kSum vk))) (map fst vk)"
    unfolding normalized_weights_def
    using fold_update_fresh[OF assms, of "[]" "\<lambda>f. js_div (get vk f) (kSum vk)"] by simp
  also have "\<dots> = map (\<lambda>p. (fst p, js_div (snd p) (kSum vk))) vk"
    by (simp add: get_distinct[OF assms] comp_def)
  finally show ?thesis .
qed

lemma map_of_normalized_weights:
  assumes "distinct (map fst vk)"
  shows "map_of (normalized_weights vk) f = map_option (\<lambda>v. js_div v (kSum vk)) (map_of vk f)"
proof -
  have "map_of (map (\<lambda>p. (fst p, h (snd p))) xs) f = map_option h (map_of xs f)"
    for xs :: "jsval obj" and h
    by (induction xs) auto
  then show ?thesis by (simp add: normalized_weights_map[OF assms])
qed

lemma fold_js_add_numbers:
  "all_numbers ob \<Longrightarrow>
   fold (\<lambda>val sum. js_add sum val) (map snd ob) (Num a) = Num (a + number_sum ob)"
proof (induction ob arbitrary: a)
  case Nil
  then show ?case by (simp add: number_sum_def)
next
  case (Cons p ob)
  then obtain r where r: "snd p = Num r"
    by (auto simp: all_numbers_def split: jsval.splits)
  from Cons have "all_numbers ob" by (simp add: all_numbers_def)
  from Cons.IH[OF this, of "a + r"] show ?case
    by (simp add: r number_sum_def)
qed

lemma kSum_numbers:
  "all_numbers vk \<Longrightarrow> kSum vk = (if number_sum vk = 0 then 1 else number_sum vk)"
  by (simp add: kSum_def fold_js_add_numbers)

lemma number_sum_div:
  "all_numbers vk \<Longrightarrow>
   number_sum (map (\<lambda>p. (fst p, js_div (snd p) d)) vk) = number_sum vk / d"
proof (induction vk)
  case Nil
  then show ?case by (simp add: number_sum_def)
next
  case (Cons p vk)
  then obtain r where r: "snd p = Num r"
    by (auto simp: all_numbers_def split: jsval.splits)
  from Cons have "number_sum (map (\<lambda>p. (fst p, js_div (snd p) d)) vk) = number_sum vk / d"
    by (simp add: all_numbers_def)
  then show ?case
    by (simp add: number_sum_def r add_divide_distrib)
qed

text \<open>
  Claim C2, as the code has it. For a crop with k values, a required field has a weight
  exactly when its k value is present and not \<open>null\<close>, and the weight is the k value
  divided by \<open>kSum\<close>. When the present k values are numbers, \<open>kSum\<close> is their sum,
  or 1 when that sum is 0; the weights add up to 1 when the sum is not 0.
\<close>

theorem C2_weight_normalization:
  assumes "kValues \<noteq> []"
  shows "map_of (variable_weights cfg dvw kValues) field =
           (if field \<in> set (REQUIRED_FIELDS cfg) \<and> has_key field kValues
               \<and> get kValues field \<noteq> Null
            then Some (js_div (get kValues field) (kSum (valid_k_values cfg kValues)))
            else None)
         \<and> (all_numbers (valid_k_values cfg kValues) \<longrightarrow>
              kSum (valid_k_values cfg kValues) =
                (if number_sum (valid_k_values cfg kValues) = 0 then 1
                 else number_sum (valid_k_values cfg kValues)))
         \<and> (all_numbers (valid_k_values cfg kValues)
              \<and> number_sum (valid_k_values cfg kValues) \<noteq> 0 \<longrightarrow>
              number_sum (variable_weights cfg dvw kValues) = 1)"
proof -
  let ?vk = "valid_k_values cfg kValues"
  have d: "distinct (map fst ?vk)" by (rule distinct_valid_k_values)
  have w: "variable_weights cfg dvw kValues = normalized_weights ?vk"
    using assms by (simp add: variable_weights_def)
  have a: "map_of (variable_weights cfg dvw kValues) field =
           (if field \<in> set (REQUIRED_FIELDS cfg) \<and> has_key field kValues
               \<and> get kValues field \<noteq> Null
            then Some (js_div (get kValues field) (kSum ?vk)) else None)"
    by (simp add: w map_of_normalized_weights[OF d] map_of_valid_k_values)
  have b: "kSum ?vk = (if number_sum ?vk = 0 then 1 else number_sum ?vk)"
    if "all_numbers ?vk"
    by (rule kSum_numbers[OF that])
  have c: "number_sum (variable_weights cfg dvw kValues) = 1"
    if "all_numbers ?vk" and "number_sum ?vk \<noteq> 0"
    using that by (simp add: w normalized_weights_map[OF d] number_sum_div kSum_numbers)
  from a b c show ?thesis by blast
qed

text \<open>
  Claim C2 as stated fails: a crop whose k value for the only required field is the
  number 0 has the weight 0 for it (0 divided by 1, not by the sum 0), and its weights
  add up to 0, not to 1.
\<close>

theorem C2_counterexample:
  "has_key ''temperature_2m_max'' zero_k \<and> get zero_k ''temperature_2m_max'' = Num 0
   \<and> REQUIRED_FIELDS cfg_one = [''temperature_2m_max'']
   \<and> variable_weights cfg_one (default_variable_weights cfg_one) zero_k
       = [(''temperature_2m_max'', Num 0)]
   \<and> number_sum (variable_weights cfg_one (default_variable_weights cfg_one) zero_k) = 0"
  by (simp add: zero_k_def cfg_one_def variable_weights_def valid_k_values_def
      normalized_weights_def kSum_def has_key_def get_def number_sum_def)

text \<open>The theorem at the k values of the scenario's crop.\<close>

theorem C2_weight_normalization_witness:
  "crop_kValues scenario_crop \<noteq> []
   \<and> all_numbers (valid_k_values cfg_one (crop_kValues scenario_crop))
   \<and> number_sum (valid_k_values cfg_one (crop_kValues scenario_crop)) = 2
   \<and> map_of (variable_weights cfg_one [] (crop_kValues scenario_crop)) ''temperature_2m_max''
       = Some (Num 1)
   \<and> number_sum (variable_weights cfg_one [] (crop_kValues scenario_crop)) = 1"
proof -
  have h1: "crop_kValues scenario_crop \<noteq> []" by (simp add: scenario_kValues)
  have vk: "valid_k_values cfg_one (crop_kValues scenario_crop) = [(''temperature_2m_max'', Num 2)]"
    by (simp add: scenario_kValues valid_k_values_def cfg_one_def has_key_def get_def)
  have h2: "all_numbers (valid_k_values cfg_one (crop_kValues scenario_crop))"
    by (simp add: vk all_numbers_def)
  have h3: "number_sum (valid_k_values cfg_one (crop_kValues scenario_crop)) = 2"
    by (simp add: vk number_sum_def)
  show ?thesis
    using h1 h2 h3
      C2_weight_normalization[OF h1, of cfg_one "[]" "''temperature_2m_max''"]
    by (simp add: vk scenario_kValues cfg_one_def has_key_def get_def)
qed

section \<open>The range of the scores\<close>

lemma logisticScore_bounds:
  assumes "x \<in> set (logisticScore ds k)"
  shows "0 < x \<and> x < 1"
proof -
  from assms obtain y :: real where x: "x = 1 / (1 + exp y)"
    by (auto simp: logisticScore_def safeExp_def Let_def)
  have "0 < exp y" by simp
  then show ?thesis unfolding x by (simp add: add_pos_pos)
qed

lemma logisticScore_Nil [simp]: "logisticScore ds k = [] \<longleftrightarrow> ds = []"
  by (simp add: logisticScore_def safeExp_def Let_def)

lemma length_logisticScore [simp]: "length (logisticScore ds k) = length ds"
  by (simp add: logisticScore_def safeExp_def Let_def)

lemma sum_list_map_less:
  fixes f g :: "'a \<Rightarrow> real"
  assumes "xs \<noteq> []" and "\<forall>x\<in>set xs. f x < g x"
  shows "sum_list (map f xs) < sum_list (map g xs)"
  using assms
proof (induction xs)
  case Nil
  then show ?case by simp
next
  case (Cons a xs)
  show ?case
  proof (cases "xs = []")
    case True
    with Cons.prems show ?thesis by simp
  next
    case False
    with Cons have "sum_list (map f xs) < sum_list (map g xs)" by simp
    moreover have "f a < g a" using Cons.prems by simp
    ultimately show ?thesis by simp
  qed
qed

lemma mean_bounds:
  fixes xs :: "real list"
  assumes "xs \<noteq> []" and "\<forall>x\<in>set xs. 0 < x \<and> x < 1"
  shows "0 < sum_list xs / real (length xs) \<and> sum_list xs / real (length xs) < 1"
proof -
  have "sum_list (map (\<lambda>x. 0) xs) < sum_list (map (\<lambda>x. x) xs)"
    by (rule sum_list_map_less[OF assms(1)]) (use assms(2) in simp)
  then have pos: "0 < sum_list xs" by simp
  have "sum_list (map (\<lambda>x. x) xs) < sum_list (map (\<lambda>x. 1) xs)"
    by (rule sum_list_map_less[OF assms(1)]) (use assms(2) in simp)
  then have lt: "sum_list xs < real (length xs)"
    by (simp add: sum_list_triv)
  have len: "0 < real (length xs)" using assms(1) by simp
  from pos lt len show ?thesis by simp
qed

lemma variable_score_bounds:
  assumes "produces_score wd cd v"
  shows "0 < variable_score cfg wd cd kv v \<and> variable_score cfg wd cd kv v < 1"
proof -
  let ?ds = "logisticScore
      (map rel_delta (valid_pairs (map (\<lambda>d. get (vals d) v) wd) (map (\<lambda>d. get (vals d) v) cd)))
      (k_used cfg kv v)"
  have ne: "?ds \<noteq> []"
    using assms by (simp add: produces_score_def)
  have "\<forall>x\<in>set ?ds. 0 < x \<and> x < 1" using logisticScore_bounds by blast
  from mean_bounds[OF ne this] show ?thesis
    by (simp add: variable_score_def Let_def)
qed

lemma weighted_average_bounds:
  fixes s w :: "'a \<Rightarrow> real"
  assumes "vs \<noteq> []" and "\<forall>v\<in>set vs. 0 < w v" and "\<forall>v\<in>set vs. 0 < s v \<and> s v < 1"
  shows "0 < sum_list (map (\<lambda>v. s v * w v) vs) / sum_list (map w vs)
       \<and> sum_list (map (\<lambda>v. s v * w v) vs) / sum_list (map w vs) < 1"
proof -
  have "sum_list (map (\<lambda>v. 0) vs) < sum_list (map w vs)"
    by (rule sum_list_map_less[OF assms(1)]) (use assms(2) in simp)
  then have wpos: "0 < sum_list (map w vs)" by simp
  have "sum_list (map (\<lambda>v. 0) vs) < sum_list (map (\<lambda>v. s v * w v) vs)"
    by (rule sum_list_map_less[OF assms(1)]) (use assms(2,3) in simp)
  then have npos: "0 < sum_list (map (\<lambda>v. s v * w v) vs)" by simp
  have "sum_list (map (\<lambda>v. s v * w v) vs) < sum_list (map w vs)"
    by (rule sum_list_map_less[OF assms(1)]) (use assms(2,3) in simp)
  with wpos npos show ?thesis by simp
qed

lemma window_score_bounds:
  assumes "window_score cfg wd cd kv w = Some s"
    and "\<forall>v\<in>set (REQUIRED_FIELDS cfg). 0 < weight_used cfg w v"
  shows "0 < s \<and> s < 1"
proof -
  let ?used = "filter (produces_score wd cd) (REQUIRED_FIELDS cfg)"
  from assms(1) have ne: "?used \<noteq> []"
    and s: "s = sum_list (map (\<lambda>v. variable_score cfg wd cd kv v * weight_used cfg w v) ?used) /
                sum_list (map (weight_used cfg w) ?used)"
    by (auto simp: window_score_def Let_def split: if_splits)
  have "\<forall>v\<in>set ?used. 0 < weight_used cfg w v" using assms(2) by simp
  moreover have "\<forall>v\<in>set ?used. 0 < variable_score cfg wd cd kv v \<and> variable_score cfg wd cd kv v < 1"
    using variable_score_bounds by simp
  ultimately show ?thesis
    unfolding s by (rule weighted_average_bounds[OF ne])
qed

lemma round4_bounds:
  assumes "0 \<le> s" and "s \<le> 1"
  shows "0 \<le> round4 s \<and> round4 s \<le> 1"
proof -
  have lo: "(0::real) \<le> s * 10000 + 1 / 2" using assms(1) by simp
  have "(0::int) \<le> \<lfloor>s * 10000 + 1 / 2\<rfloor>"
    using lo by (simp only: zero_le_floor)
  then have a: "(0::real) \<le> of_int \<lfloor>s * 10000 + 1 / 2\<rfloor>" by simp
  have hi: "s * 10000 + 1 / 2 < 10001" using assms(2) by simp
  have "\<lfloor>s * 10000 + 1 / 2\<rfloor> < 10001"
    using hi by (simp only: floor_less_iff)
  then have "\<lfloor>s * 10000 + 1 / 2\<rfloor> \<le> 10000" by simp
  then have b: "(of_int \<lfloor>s * 10000 + 1 / 2\<rfloor> :: real) \<le> 10000"
    by (metis of_int_le_iff of_int_numeral)
  from a b show ?thesis unfolding round4_def by simp
qed

lemma fold_js_add_NaN: "fold (\<lambda>val sum. js_add sum val) vs NaN = NaN"
  by (induction vs) simp_all

lemma fold_js_add_nonneg:
  assumes "\<forall>v\<in>set vs. case v of Num r \<Rightarrow> 0 \<le> r | _ \<Rightarrow> True" and "0 \<le> a"
  shows "case fold (\<lambda>val sum. js_add sum val) vs (Num a) of
           Num b \<Rightarrow> 0 \<le> b | NaN \<Rightarrow> True | _ \<Rightarrow> False"
  using assms
proof (induction vs arbitrary: a)
  case Nil
  then show ?case by simp
next
  case (Cons v vs)
  show ?case
  proof (cases v)
    case (Num r)
    with Cons.prems have "0 \<le> a + r" by simp
    with Cons.IH[of "a + r"] Cons.prems(1) Num show ?thesis by simp
  next
    case Null
    with Cons.IH[of a] Cons.prems show ?thesis by simp
  qed (simp_all add: fold_js_add_NaN)
qed

lemma kSum_pos:
  assumes "\<forall>p\<in>set vk. case snd p of Num r \<Rightarrow> 0 \<le> r | _ \<Rightarrow> True"
  shows "0 < kSum vk"
proof -
  have "\<forall>v\<in>set (map snd vk). case v of Num r \<Rightarrow> 0 \<le> r | _ \<Rightarrow> True"
    using assms by simp
  from fold_js_add_nonneg[OF this, of 0] show ?thesis
    by (auto simp: kSum_def split: jsval.splits)
qed

lemma valid_k_values_mem:
  assumes "p \<in> set (valid_k_values cfg kv)"
  shows "p \<in> set kv"
proof -
  have "map_of (valid_k_values cfg kv) (fst p) = Some (snd p)"
    using assms distinct_valid_k_values[of cfg kv] by simp
  then have "has_key (fst p) kv" and "get kv (fst p) = snd p"
    by (auto simp: map_of_valid_k_values split: if_splits)
  then have "map_of kv (fst p) = Some (snd p)"
    by (auto simp: has_key_def get_def)
  then show ?thesis by (metis map_of_SomeD prod.collapse)
qed

lemma map_of_default_variable_weights:
  "map_of (default_variable_weights cfg) v =
     (if v \<in> set (REQUIRED_FIELDS cfg)
      then Some (Num (1 / real (length (REQUIRED_FIELDS cfg)))) else None)"
proof -
  have "map_of (fold (\<lambda>f w. AList.update f x w) fs acc) v =
      (if v \<in> set fs then Some x else map_of acc v)" for fs x and acc :: "jsval obj"
    by (induction fs arbitrary: acc) (auto simp: update_conv')
  then show ?thesis by (simp add: default_variable_weights_def)
qed

lemma weight_used_pos:
  assumes "no_negative_k kv" and "v \<in> set (REQUIRED_FIELDS cfg)"
  shows "0 < weight_used cfg (variable_weights cfg (default_variable_weights cfg) kv) v"
proof -
  have len: "0 < 1 / real (length (REQUIRED_FIELDS cfg))"
    using assms(2) by (cases "REQUIRED_FIELDS cfg") simp_all
  show ?thesis
  proof (cases "kv = []")
    case True
    then show ?thesis
      using len assms(2)
      by (simp add: variable_weights_def weight_used_def get_def map_of_default_variable_weights)
  next
    case False
    let ?vk = "valid_k_values cfg kv"
    have nn: "\<forall>p\<in>set ?vk. case snd p of Num r \<Rightarrow> 0 \<le> r | _ \<Rightarrow> True"
      using assms(1) valid_k_values_mem[of _ cfg kv]
      by (auto simp: no_negative_k_def list_all_iff)
    have K: "0 < kSum ?vk" by (rule kSum_pos[OF nn])
    have w: "variable_weights cfg (default_variable_weights cfg) kv = normalized_weights ?vk"
      using False by (simp add: variable_weights_def)
    show ?thesis
    proof (cases "map_of ?vk v")
      case None
      then show ?thesis
        using len
        by (simp add: w weight_used_def get_def map_of_normalized_weights[OF distinct_valid_k_values])
    next
      case (Some x)
      then have "(v, x) \<in> set ?vk" by (rule map_of_SomeD)
      with nn have x: "case x of Num r \<Rightarrow> 0 \<le> r | _ \<Rightarrow> True" by force
      have g: "get (normalized_weights ?vk) v = js_div x (kSum ?vk)"
        by (simp add: get_def map_of_normalized_weights[OF distinct_valid_k_values] Some)
      show ?thesis
      proof (cases x)
        case (Num r)
        with x have "0 \<le> r" by simp
        then have "r / kSum ?vk = 0 \<or> 0 < r / kSum ?vk"
          using K by (cases "r = 0") simp_all
        then show ?thesis
          using len by (auto simp: w weight_used_def g Num simp del: divide_eq_0_iff)
      qed (use len in \<open>simp_all add: w weight_used_def g\<close>)
    qed
  qed
qed

lemma set_map_filter: "x \<in> set (List.map_filter f xs) \<longleftrightarrow> (\<exists>y\<in>set xs. f y = Some x)"
  by (induction xs) (auto simp: map_filter_def)



lemma merge_neg: "merge_config neg_config = cfg_two"
  by (simp add: merge_config_def neg_config_def DEFAULT_CONFIG_def cfg_two_def)

lemma neg_weights:
  "variable_weights cfg_two dvw neg_k =
     [(''temperature_2m_max'', Num 2), (''temperature_2m_min'', Num (- 1))]"
  by (simp add: variable_weights_def valid_k_values_def normalized_weights_def kSum_def
      has_key_def get_def cfg_two_def neg_k_def)

lemma neg_produces:
  "produces_score neg_forecast neg_cropDf ''temperature_2m_max''"
  "produces_score neg_forecast neg_cropDf ''temperature_2m_min''"
  by (simp_all add: produces_score_def every_day_has_def has_key_def get_def valid_pairs_def
      elem_at_def pair_ok_def neg_forecast_def neg_cropDf_def)

lemma neg_variable_scores:
  "variable_score cfg_two neg_forecast neg_cropDf neg_k ''temperature_2m_max'' =
     1 / (1 + exp (max (- 709) (min 709 (- 2 * sqrt (rel_delta (3, 1))))))"
  "variable_score cfg_two neg_forecast neg_cropDf neg_k ''temperature_2m_min'' = 1 / 2"
  by (simp_all add: variable_score_def get_def valid_pairs_def elem_at_def pair_ok_def
      neg_forecast_def neg_cropDf_def logisticScore_def safeExp_def k_used_def neg_k_def
      cfg_two_def)
     (simp add: rel_delta_def)

lemma neg_window_score:
  "window_score cfg_two neg_forecast neg_cropDf neg_k
     [(''temperature_2m_max'', Num 2), (''temperature_2m_min'', Num (- 1))] = Some neg_score"
proof -
  have f: "REQUIRED_FIELDS cfg_two = [''temperature_2m_max'', ''temperature_2m_min'']"
    by (simp add: cfg_two_def)
  have w: "weight_used cfg_two [(''temperature_2m_max'', Num 2), (''temperature_2m_min'', Num (- 1))]
             ''temperature_2m_max'' = 2"
    "weight_used cfg_two [(''temperature_2m_max'', Num 2), (''temperature_2m_min'', Num (- 1))]
             ''temperature_2m_min'' = - 1"
    by (simp_all add: weight_used_def get_def)
  show ?thesis
    by (simp add: window_score_def f neg_produces w neg_variable_scores neg_score_def)
qed

lemma neg_reported:
  "crop_reported cfg_two neg_forecast dvw neg_crop = [(0, round4 neg_score)]"
proof -
  have st: "crop_starts cfg_two neg_forecast (Suc 0) = [0]"
    by (simp add: crop_starts_def starts_from.simps neg_forecast_def cfg_two_def)
  have win: "window_at neg_forecast neg_cropDf 0 = neg_forecast"
    by (simp add: window_at_def neg_forecast_def neg_cropDf_def)
  have rej: "\<not> rejected cfg_two neg_forecast neg_cropDf 0"
    unfolding rejected_def win
    by (simp add: insufficient_def validValues_def gate_valid_def has_key_def get_def cfg_two_def
        neg_forecast_def neg_cropDf_def)
  have sw: "scored_window cfg_two neg_forecast neg_cropDf neg_k
      [(''temperature_2m_max'', Num 2), (''temperature_2m_min'', Num (- 1))] 0 =
      Some (0, round4 neg_score)"
    unfolding scored_window_def win neg_window_score
    by (simp add: iso_day_def neg_forecast_def)
  have len: "length neg_cropDf = 1" "neg_cropDf \<noteq> []" "length neg_forecast = 1"
    "sort_key date neg_cropDf = neg_cropDf"
    by (simp_all add: neg_cropDf_def neg_forecast_def)
  show ?thesis
    by (simp add: crop_reported_def neg_crop_def len crop_kValues_def neg_weights st
        reported_windows_def rej sw)
qed

lemma neg_score_gt: "11 / 10 < neg_score"
proof -
  define y :: real where "y = max (- 709) (min 709 (- 2 * sqrt (rel_delta (3, 1))))"
  have d: "1 < rel_delta (3, 1)" by (simp add: rel_delta_def)
  then have "1 < sqrt (rel_delta (3, 1))" by simp
  then have z: "- 2 * sqrt (rel_delta (3, 1)) < - 2" by simp
  then have m: "min 709 (- 2 * sqrt (rel_delta (3, 1))) < - 2"
    by (rule min.strict_coboundedI2)
  have y: "y < - 2"
    unfolding y_def by (simp only: max_less_iff_conj m) simp
  have "(2::real) \<le> exp 1" using exp_ge_add_one_self[of "1::real"] by simp
  then have "(2::real) ^ 2 \<le> exp 1 ^ 2" by (intro power_mono) simp_all
  then have e2: "(4::real) \<le> exp 2" using exp_double[of "1::real"] by simp
  have "exp y < exp (- 2 :: real)" using y by (simp only: exp_less_cancel_iff)
  also have "\<dots> = 1 / exp 2" by (simp add: exp_minus inverse_eq_divide)
  also have "\<dots> \<le> 1 / 4" using e2 by (simp add: field_simps)
  finally have e: "exp y < 1 / 4" .
  have pos: "0 < exp y" by simp
  have den: "0 < 1 + exp y" by (simp add: add_pos_pos)
  have "4 / 5 * (1 + exp y) < 1" using e by simp
  then have "4 / 5 < 1 / (1 + exp y)"
    using den by (simp only: less_divide_eq) simp
  then show ?thesis by (simp add: neg_score_def y_def)
qed

lemma neg_round4_gt: "1 < round4 neg_score"
proof -
  have "(10001::real) \<le> neg_score * 10000 + 1 / 2" using neg_score_gt by simp
  then have "(10001::int) \<le> \<lfloor>neg_score * 10000 + 1 / 2\<rfloor>"
    by (simp only: le_floor_iff)
  then have "(10001::real) \<le> of_int \<lfloor>neg_score * 10000 + 1 / 2\<rfloor>"
    by (metis of_int_le_iff of_int_numeral)
  then show ?thesis by (simp add: round4_def)
qed

text \<open>
  Claim C1 as stated fails: a crop with the k values 2 and -1 gets the weights 2 and -1,
  and its only window, whose maximum temperature is off and whose minimum temperature
  matches, is reported with a score above 1.
\<close>

theorem C1_counterexample:
  "map_option (\<lambda>rl. map reported_crop (fst rl))
     (runCropMatching [(''crop'', neg_crop)] neg_forecast neg_config)
     = Some [(''crop'', [(0, round4 neg_score)])]
   \<and> 1 < round4 neg_score"
proof -
  have step: "0 < STEP_SIZE (merge_config neg_config)"
    by (simp add: merge_neg cfg_two_def)
  obtain results logs where
    run: "runCropMatching [(''crop'', neg_crop)] neg_forecast neg_config = Some (results, logs)"
    and rep: "map reported_crop results =
         run_reported (merge_config neg_config) (sort_key date neg_forecast)
           (default_variable_weights (merge_config neg_config)) [(''crop'', neg_crop)]"
    using runCropMatching_effect[OF step] by blast
  have srt: "sort_key date neg_forecast = neg_forecast" by (simp add: neg_forecast_def)
  have "map reported_crop results = [(''crop'', [(0, round4 neg_score)])]"
    unfolding rep by (simp add: run_reported_def merge_neg srt neg_reported)
  with run neg_round4_gt show ?thesis by simp
qed

end
